theory Spec2Isabelle
  imports Complex_Main
begin

section \<open>Timestamps and columns\<close>

text \<open>
  A pandas timestamp is a count of nanoseconds since the epoch. A timezone-naive value
  counts wall-clock nanoseconds; a timezone-aware value is stored as its UTC instant
  together with the zone of the column. Counts are integers; the 64-bit range of
  \<^verbatim>\<open>datetime64[ns]\<close> is written out where the code computes a new timestamp that can
  leave it, the one-day padding of the timeline. A cell stands for a value the parser
  accepts, so a parsed instant is in range, and rounding to the minute cannot leave the
  range (the least value rounds up, the greatest rounds down).
\<close>

definition ts_min :: int where
  "ts_min = - 9223372036854775807"

definition ts_max :: int where
  "ts_max = 9223372036854775807"

definition ns_per_second :: int where
  "ns_per_second = 1000000000"

definition ns_per_minute :: int where
  "ns_per_minute = 60 * ns_per_second"

definition ns_per_day :: int where
  "ns_per_day = 1440 * ns_per_minute"

text \<open>
  \<^verbatim>\<open>Series.dt.round('min')\<close> ends in pandas' \<^verbatim>\<open>round_nsint64\<close> with the mode
  \<^verbatim>\<open>NEAREST_HALF_EVEN\<close>: quotient and remainder by floor division, and the quotient
  is bumped when the remainder is above half the unit, or equal to it with an odd quotient.
\<close>

definition round_nsint64 :: "int \<Rightarrow> int \<Rightarrow> int" where
  "round_nsint64 v unit =
     (let quotient = v div unit; remainder = v mod unit in
      if remainder > unit div 2 \<or> (remainder = unit div 2 \<and> odd quotient)
      then (quotient + 1) * unit else quotient * unit)"

definition round_min :: "int \<Rightarrow> int" where
  "round_min v = round_nsint64 v ns_per_minute"

text \<open>Zones: UTC, or a fixed offset east of UTC in seconds (what an ISO string carries).\<close>

datatype tzinfo = UTC | FixedOffset int

fun utcoffset :: "tzinfo \<Rightarrow> int" where
  "utcoffset UTC = 0"
| "utcoffset (FixedOffset s) = s * ns_per_second"

text \<open>
  A cell of an object-dtype column, as \<^verbatim>\<open>read_csv\<close> leaves it. The grammar of date
  strings belongs to pandas and dateutil; a cell is represented by what that parser reads
  it as: nothing (\<open>NaN\<close>), a wall-clock time without offset (\<open>NaiveStr t\<close>), a
  wall-clock time with an explicit offset in seconds (\<open>AwareStr t off\<close>), or a value
  that is no timestamp at all (\<open>Other v\<close>: a measurement, or a string the parser rejects).
\<close>

datatype 'v cell = NaN | NaiveStr int | AwareStr int int | Other 'v

text \<open>
  A column is either of object dtype, or of dtype \<^verbatim>\<open>datetime64[ns]\<close> (zone \<open>None\<close>,
  wall-clock values) or \<^verbatim>\<open>datetime64[ns, tz]\<close> (zone \<open>Some tz\<close>, UTC instants).
  A missing timestamp (\<^verbatim>\<open>NaT\<close>) is \<open>None\<close>.
\<close>

datatype 'v column = Object "'v cell list" | Datetime "tzinfo option" "int option list"

type_synonym 'v frame = "(string \<times> 'v column) list"

fun len :: "'v column \<Rightarrow> nat" where
  "len (Object cs) = length cs"
| "len (Datetime tz vs) = length vs"

definition columns :: "'v frame \<Rightarrow> string list" where
  "columns df = map fst df"

datatype error =
    NoDateColumn "string list"
  | KeyError string
  | UnparseableTimestamp nat
  | NoDtAccessor
  | TypeError
  | NoBloodGlucose
  | NaTBounds
  | MergeDtypeError
  | LabelNotUnique string
  | MergeError "string list"
  | OutOfBoundsDatetime

text \<open>
  The release of pandas, where the two differ in what the merger meets: pandas 3 refuses a
  suffixed label that is already a label of the other frame.
\<close>

datatype pandas = Pandas2 | Pandas3

text \<open>\<^verbatim>\<open>df[col]\<close>: the column of that name, \<^verbatim>\<open>KeyError\<close> when there is none.\<close>

definition getitem :: "'v frame \<Rightarrow> string \<Rightarrow> error + 'v column" where
  "getitem df c = (case map_of df c of None \<Rightarrow> Inl (KeyError c) | Some col \<Rightarrow> Inr col)"

text \<open>\<^verbatim>\<open>df[col] = value\<close>: replaces the column in place, or appends a new one.\<close>

fun setitem :: "'v frame \<Rightarrow> string \<Rightarrow> 'v column \<Rightarrow> 'v frame" where
  "setitem [] c col = [(c, col)]"
| "setitem ((n, old) # df) c col =
     (if n = c then (n, col) # df else (n, old) # setitem df c col)"

section \<open>Parsing: \<^verbatim>\<open>pd.to_datetime(..., format='mixed')\<close>\<close>

text \<open>
  Each cell is parsed on its own. A cell that is no timestamp raises, with the position of
  the first such cell. When every parsed string is naive the result is a naive datetime
  column; when every parsed string carries the same offset it is an aware column of that
  fixed offset. When the strings disagree (naive next to aware, or two different offsets)
  pandas 2 returns an object-dtype column of \<^verbatim>\<open>datetime\<close> objects (pandas 3 raises
  \<^verbatim>\<open>ValueError\<close> at once); the cells are left as they are to stand for that column.
\<close>

fun first_other :: "'v cell list \<Rightarrow> nat \<Rightarrow> nat option" where
  "first_other [] i = None"
| "first_other (Other v # cs) i = Some i"
| "first_other (c # cs) i = first_other cs (Suc i)"

fun tz_marks :: "'v cell list \<Rightarrow> int option list" where
  "tz_marks [] = []"
| "tz_marks (NaiveStr t # cs) = None # tz_marks cs"
| "tz_marks (AwareStr t off # cs) = Some off # tz_marks cs"
| "tz_marks (c # cs) = tz_marks cs"

fun parse_cell :: "'v cell \<Rightarrow> int option" where
  "parse_cell (NaiveStr t) = Some t"
| "parse_cell (AwareStr t off) = Some (t - off * ns_per_second)"
| "parse_cell c = None"

definition to_datetime :: "'v cell list \<Rightarrow> error + 'v column" where
  "to_datetime cs =
     (case first_other cs 0 of
        Some i \<Rightarrow> Inl (UnparseableTimestamp i)
      | None \<Rightarrow>
         (case remdups (tz_marks cs) of
            [] \<Rightarrow> Inr (Datetime None (map parse_cell cs))
          | [None] \<Rightarrow> Inr (Datetime None (map parse_cell cs))
          | [Some off] \<Rightarrow>
              Inr (Datetime (Some (if off = 0 then UTC else FixedOffset off)) (map parse_cell cs))
          | _ \<Rightarrow> Inr (Object cs)))"

section \<open>The \<^verbatim>\<open>.dt\<close> accessor\<close>

text \<open>
  \<^verbatim>\<open>.dt\<close> exists on datetime columns only; on an object column it raises
  \<^verbatim>\<open>AttributeError\<close>.
\<close>

fun dt_tz :: "'v column \<Rightarrow> error + tzinfo option" where
  "dt_tz (Datetime tz vs) = Inr tz"
| "dt_tz (Object cs) = Inl NoDtAccessor"

text \<open>
  \<^verbatim>\<open>tz_localize(tz)\<close> with a zone reads naive wall-clock values in that zone (and raises
  on an aware column); \<^verbatim>\<open>tz_localize(None)\<close> drops the zone and keeps the wall clock of
  the column's zone; \<^verbatim>\<open>tz_convert\<close> keeps the instants and changes the zone (and raises
  on a naive column).
\<close>

fun dt_tz_localize :: "'v column \<Rightarrow> tzinfo option \<Rightarrow> error + 'v column" where
  "dt_tz_localize (Object cs) tz = Inl NoDtAccessor"
| "dt_tz_localize (Datetime None vs) None = Inr (Datetime None vs)"
| "dt_tz_localize (Datetime None vs) (Some tz) =
     Inr (Datetime (Some tz) (map (map_option (\<lambda>v. v - utcoffset tz)) vs))"
| "dt_tz_localize (Datetime (Some old) vs) None =
     Inr (Datetime None (map (map_option (\<lambda>v. v + utcoffset old)) vs))"
| "dt_tz_localize (Datetime (Some old) vs) (Some tz) = Inl TypeError"

fun dt_tz_convert :: "'v column \<Rightarrow> tzinfo \<Rightarrow> error + 'v column" where
  "dt_tz_convert (Object cs) tz = Inl NoDtAccessor"
| "dt_tz_convert (Datetime None vs) tz = Inl TypeError"
| "dt_tz_convert (Datetime (Some old) vs) tz = Inr (Datetime (Some tz) vs)"

text \<open>Rounding works on the wall clock of the column's zone; \<^verbatim>\<open>NaT\<close> stays.\<close>

fun dt_round_min :: "'v column \<Rightarrow> error + 'v column" where
  "dt_round_min (Object cs) = Inl NoDtAccessor"
| "dt_round_min (Datetime None vs) = Inr (Datetime None (map (map_option round_min) vs))"
| "dt_round_min (Datetime (Some tz) vs) =
     Inr (Datetime (Some tz)
            (map (map_option (\<lambda>v. round_min (v + utcoffset tz) - utcoffset tz)) vs))"

definition bind :: "error + 'a \<Rightarrow> ('a \<Rightarrow> error + 'b) \<Rightarrow> error + 'b" where
  "bind m f = (case m of Inl e \<Rightarrow> Inl e | Inr x \<Rightarrow> f x)"

section \<open>The normalizer: \<^verbatim>\<open>_standardize_timestamp\<close>\<close>

definition date_candidates :: "string list" where
  "date_candidates =
     [''date'', ''timestamp'', ''creation_date'', ''recorded_time'', ''sleep_start'', ''sleep_end'']"

text \<open>Lines 18 to 25: the explicit name, or the first candidate that is a column.\<close>

definition resolve_date_col :: "'v frame \<Rightarrow> string option \<Rightarrow> error + string" where
  "resolve_date_col df date_col =
     (case date_col of
        Some c \<Rightarrow> Inr c
      | None \<Rightarrow>
         (case find (\<lambda>col. col \<in> set (columns df)) date_candidates of
            Some c \<Rightarrow> Inr c
          | None \<Rightarrow> Inl (NoDateColumn (columns df))))"

text \<open>Lines 29 to 31: parse unless the column is a datetime column already.\<close>

fun ensure_datetime :: "'v column \<Rightarrow> error + 'v column" where
  "ensure_datetime (Datetime tz vs) = Inr (Datetime tz vs)"
| "ensure_datetime (Object cs) = to_datetime cs"

text \<open>Lines 34 to 39: the reference, anchored in UTC and rounded.\<close>

definition orig_utc_of :: "'v column \<Rightarrow> error + 'v column" where
  "orig_utc_of col =
     bind (dt_tz col) (\<lambda>tz.
     bind (if tz = None then dt_tz_localize col (Some UTC) else dt_tz_convert col UTC) (\<lambda>u.
     dt_round_min u))"

text \<open>Lines 42 to 47: the final column, naive and rounded.\<close>

definition final_of :: "'v column \<Rightarrow> error + 'v column" where
  "final_of col =
     bind (dt_tz col) (\<lambda>tz.
     bind (if tz = None then dt_tz_localize col (Some UTC) else Inr col) (\<lambda>l.
     bind (dt_tz_convert l UTC) (\<lambda>c.
     bind (dt_tz_localize c None) (\<lambda>n.
     dt_round_min n))))"

text \<open>
  An element of a column as the loop of line 51 sees it: a cell of an object column, or a
  timestamp with its zone.
\<close>

datatype 'v scalar = Cell "'v cell" | Stamp "tzinfo option" "int option"

fun iloc :: "'v column \<Rightarrow> nat \<Rightarrow> 'v scalar" where
  "iloc (Object cs) i = Cell (cs ! i)"
| "iloc (Datetime tz vs) i = Stamp tz (vs ! i)"

fun stamps :: "'v column \<Rightarrow> int option list" where
  "stamps (Datetime tz vs) = vs"
| "stamps (Object cs) = []"

record 'v adjustment =
  index :: nat
  original :: "'v scalar"
  original_utc :: "int option"
  final :: "int option"
  difference_seconds :: "real option"

text \<open>
  Comparing timestamps: \<^verbatim>\<open>NaT\<close> differs from everything, itself included, and a
  difference with \<^verbatim>\<open>NaT\<close> has \<^verbatim>\<open>nan\<close> seconds (\<open>None\<close>).
\<close>

fun ts_ne :: "int option \<Rightarrow> int option \<Rightarrow> bool" where
  "ts_ne (Some a) (Some b) = (a \<noteq> b)"
| "ts_ne a b = True"

fun total_seconds :: "int option \<Rightarrow> int option \<Rightarrow> real option" where
  "total_seconds (Some a) (Some b) = Some (real_of_int (a - b) / real_of_int ns_per_second)"
| "total_seconds a b = None"

text \<open>
  Lines 50 to 59. The final value is naive; \<^verbatim>\<open>tz_localize('UTC')\<close> on it keeps the
  count. \<^verbatim>\<open>original_timestamps[idx]\<close> is read by position (the frames come from
  \<^verbatim>\<open>read_csv\<close> and \<^verbatim>\<open>date_range\<close>, with the default index).
\<close>

fun adjustments_from ::
  "'v column \<Rightarrow> nat \<Rightarrow> int option list \<Rightarrow> int option list \<Rightarrow> 'v adjustment list" where
  "adjustments_from orig_col idx (orig # os) (fin # fs) =
     (if ts_ne orig fin
      then \<lparr>index = idx, original = iloc orig_col idx, original_utc = orig, final = fin,
             difference_seconds = total_seconds fin orig\<rparr>
           # adjustments_from orig_col (Suc idx) os fs
      else adjustments_from orig_col (Suc idx) os fs)"
| "adjustments_from orig_col idx os fs = []"

text \<open>Lines 70 to 72: the classification of a record.\<close>

datatype adjustment_kind = round_up | round_down

definition adjustment_type :: "'v adjustment \<Rightarrow> adjustment_kind" where
  "adjustment_type a =
     (case difference_seconds a of
        Some x \<Rightarrow> if x > 0 then round_up else round_down
      | None \<Rightarrow> round_down)"

text \<open>
  The whole function. The source returns the frame and prints a summary of the list
  \<^verbatim>\<open>adjustments\<close>; the model returns both. The frame argument is the copy made at
  line 15.
\<close>

definition standardize_timestamp ::
  "'v frame \<Rightarrow> string option \<Rightarrow> error + ('v frame \<times> 'v adjustment list)" where
  "standardize_timestamp df date_col_arg =
     bind (resolve_date_col df date_col_arg) (\<lambda>date_col.
     bind (getitem df date_col) (\<lambda>original_timestamps.
     bind (ensure_datetime original_timestamps) (\<lambda>parsed.
     bind (orig_utc_of parsed) (\<lambda>orig_utc.
     bind (final_of parsed) (\<lambda>fin.
     Inr (setitem df date_col fin,
          adjustments_from original_timestamps 0 (stamps orig_utc) (stamps fin)))))))"

section \<open>Objects and copies\<close>

text \<open>
  Frames are objects: a store holds them by address, a new object gets the next address.
  \<^verbatim>\<open>_standardize_timestamp\<close> starts with \<^verbatim>\<open>df = df.copy()\<close> (line 15) and every
  later assignment \<^verbatim>\<open>df[date_col] = ...\<close> goes to that copy; when a step raises, the
  copy is garbage and the store keeps only its allocation.
\<close>

type_synonym 'v store = "'v frame list"

definition copy :: "'v store \<Rightarrow> nat \<Rightarrow> 'v store \<times> nat" where
  "copy st a = (st @ [st ! a], length st)"

definition standardize_timestamp_obj ::
  "'v store \<Rightarrow> nat \<Rightarrow> string option \<Rightarrow> 'v store \<times> (error + nat \<times> 'v adjustment list)" where
  "standardize_timestamp_obj st a date_col =
     (case copy st a of (st1, df) \<Rightarrow>
        (case standardize_timestamp (st1 ! df) date_col of
           Inl e \<Rightarrow> (st1, Inl e)
         | Inr (df', adjustments) \<Rightarrow> (st1[df := df'], Inr (df, adjustments))))"

section \<open>The timeline: \<^verbatim>\<open>create_base_timeline\<close>\<close>

text \<open>
  \<^verbatim>\<open>self.data_frames\<close> is a dictionary in insertion order from series names to frames
  (or \<^verbatim>\<open>None\<close>): an association list with distinct names.
\<close>

type_synonym 'v registry = "(string \<times> 'v frame option) list"

text \<open>\<^verbatim>\<open>Series.min()\<close> and \<^verbatim>\<open>max()\<close> skip
    \<^verbatim>\<open>NaT\<close> and give \<^verbatim>\<open>NaT\<close> when nothing is left.\<close>

fun present :: "int option list \<Rightarrow> int list" where
  "present [] = []"
| "present (None # vs) = present vs"
| "present (Some v # vs) = v # present vs"

definition series_min :: "int option list \<Rightarrow> int option" where
  "series_min vs = (case present vs of [] \<Rightarrow> None | x # xs \<Rightarrow> Some (fold min xs x))"

definition series_max :: "int option list \<Rightarrow> int option" where
  "series_max vs = (case present vs of [] \<Rightarrow> None | x # xs \<Rightarrow> Some (fold max xs x))"

text \<open>
  \<^verbatim>\<open>pd.date_range(start, end, freq='min')\<close>: \<open>start\<close>, then one minute more each time,
  as long as \<open>end\<close> is not passed.
\<close>

definition date_range :: "int \<Rightarrow> int \<Rightarrow> int list" where
  "date_range start end =
     map (\<lambda>k. start + int k * ns_per_minute)
         [0 ..< nat ((end - start) div ns_per_minute + 1)]"

text \<open>
  Lines 215 to 235. The bounds of an object column (strings) cannot be shifted by a
  \<^verbatim>\<open>Timedelta\<close>; \<^verbatim>\<open>date_range\<close> refuses \<^verbatim>\<open>NaT\<close> bounds; a bound
  that the padding of lines 221 and 222 moves out of the range of
  \<^verbatim>\<open>datetime64[ns]\<close> raises \<^verbatim>\<open>OutOfBoundsDatetime\<close>. The adjustments that
  \<^verbatim>\<open>_standardize_timestamp\<close> prints are dropped, as in the source.
\<close>

definition create_base_timeline :: "'v registry \<Rightarrow> error + 'v frame" where
  "create_base_timeline data_frames =
     (case map_of data_frames ''blood_glucose'' of
        Some (Some bgl_df) \<Rightarrow>
          bind (getitem bgl_df ''date'') (\<lambda>col.
            (case col of
               Object cs \<Rightarrow> Inl TypeError
             | Datetime tz vs \<Rightarrow>
                (case (series_min vs, series_max vs) of
                   (Some mn, Some mx) \<Rightarrow>
                     (let start_date = mn - ns_per_day;
                          end_date = mx + ns_per_day
                      in if start_date < ts_min \<or> ts_max < end_date
                         then Inl OutOfBoundsDatetime
                         else (let timeline = date_range start_date end_date;
                                   base_df = [(''timestamp'', Datetime tz (map Some timeline))]
                               in bind (standardize_timestamp base_df (Some ''timestamp''))
                                       (\<lambda>r. Inr (fst r))))
                 | _ \<Rightarrow> Inl NaTBounds)))
      | _ \<Rightarrow> Inl NoBloodGlucose)"

section \<open>The left join: \<^verbatim>\<open>pd.merge(..., how='left')\<close>\<close>

text \<open>
  Row pairs of a left join: the left rows in their order, each with every right row of the
  same key in the right frame's order, or with no right row when there is none. Missing
  keys match each other.
\<close>

definition matches :: "int option list \<Rightarrow> int option \<Rightarrow> nat list" where
  "matches rkeys k = filter (\<lambda>j. rkeys ! j = k) [0 ..< length rkeys]"

definition row_pairs :: "int option list \<Rightarrow> int option \<Rightarrow> nat \<Rightarrow> (nat \<times> nat option) list" where
  "row_pairs rkeys k i =
     (case matches rkeys k of [] \<Rightarrow> [(i, None)] | js \<Rightarrow> map (\<lambda>j. (i, Some j)) js)"

definition left_outer_join :: "int option list \<Rightarrow> int option list \<Rightarrow> (nat \<times> nat option) list" where
  "left_outer_join lkeys rkeys =
     concat (map (\<lambda>i. row_pairs rkeys (lkeys ! i) i) [0 ..< length lkeys])"

text \<open>Taking rows of a column; a missing row gives the missing marker of the dtype.\<close>

fun take_rows :: "'v column \<Rightarrow> nat option list \<Rightarrow> 'v column" where
  "take_rows (Object cs) idx =
     Object (map (\<lambda>i. case i of None \<Rightarrow> NaN | Some j \<Rightarrow> cs ! j) idx)"
| "take_rows (Datetime tz vs) idx =
     Datetime tz (map (\<lambda>i. case i of None \<Rightarrow> None | Some j \<Rightarrow> vs ! j) idx)"

definition nrows :: "'v frame \<Rightarrow> nat" where
  "nrows df = (case df of [] \<Rightarrow> 0 | (n, col) # rest \<Rightarrow> len col)"

definition drop_label :: "'v frame \<Rightarrow> string \<Rightarrow> 'v frame" where
  "drop_label df c = filter (\<lambda>p. fst p \<noteq> c) df"

text \<open>
  A join key must name exactly one column, and keys must be of the same dtype: the left
  key here is always the naive \<open>timestamp\<close> column, so the right one must be naive
  datetime as well.
\<close>

definition key_column :: "'v frame \<Rightarrow> string \<Rightarrow> error + int option list" where
  "key_column df c =
     (case filter (\<lambda>p. fst p = c) df of
        [] \<Rightarrow> Inl (KeyError c)
      | [(n, Datetime None vs)] \<Rightarrow> Inr vs
      | [(n, col)] \<Rightarrow> Inl MergeDtypeError
      | _ \<Rightarrow> Inl (LabelNotUnique c))"

text \<open>
  pandas' \<^verbatim>\<open>_items_overlap_with_suffix\<close>: names on both sides get the side's suffix;
  a duplicate that the renaming creates within one side raises \<^verbatim>\<open>MergeError\<close>.
  pandas 3 also raises when a suffixed label is a label of the other side that was not
  renamed; pandas 2 returns the two equal labels.
\<close>

definition renamer :: "string list \<Rightarrow> string \<Rightarrow> string \<Rightarrow> string" where
  "renamer to_rename suffix x = (if x \<in> set to_rename then x @ suffix else x)"

fun duplicated :: "string list \<Rightarrow> string list \<Rightarrow> bool list" where
  "duplicated seen [] = []"
| "duplicated seen (x # xs) = (x \<in> set seen) # duplicated (x # seen) xs"

definition suffix_dups :: "string list \<Rightarrow> string list \<Rightarrow> string list" where
  "suffix_dups old new =
     map fst (filter (\<lambda>(x, d, d0). d \<and> \<not> d0)
                     (zip new (zip (duplicated [] new) (duplicated [] old))))"

definition items_overlap_with_suffix ::
  "pandas \<Rightarrow> string list \<Rightarrow> string list \<Rightarrow> string \<times> string \<Rightarrow> error + string list \<times> string list" where
  "items_overlap_with_suffix pv left right suffixes =
     (let to_rename = filter (\<lambda>x. x \<in> set right) left in
      if to_rename = [] then Inr (left, right)
      else if fst suffixes = [] \<and> snd suffixes = [] then Inl (MergeError to_rename)
      else (let llabels = map (renamer to_rename (fst suffixes)) left;
                rlabels = map (renamer to_rename (snd suffixes)) right;
                dups = suffix_dups left llabels @ suffix_dups right rlabels
                       @ (if pv = Pandas3
                          then filter (\<lambda>x. x \<in> set right \<and> x \<notin> set to_rename) llabels
                               @ filter (\<lambda>x. x \<in> set left \<and> x \<notin> set to_rename) rlabels
                          else [])
            in if dups \<noteq> [] then Inl (MergeError dups) else Inr (llabels, rlabels)))"

text \<open>
  When both keys have one name the result has one key column: the right one is dropped
  (the left one when the left frame has no rows).
\<close>

definition drop_join_key ::
  "'v frame \<Rightarrow> 'v frame \<Rightarrow> string \<Rightarrow> string \<Rightarrow> 'v frame \<times> 'v frame" where
  "drop_join_key left right left_on right_on =
     (if left_on = right_on
      then (if 0 < nrows left then (left, drop_label right right_on)
            else (drop_label left left_on, right))
      else (left, right))"

definition reindex_and_concat ::
  "'v frame \<Rightarrow> 'v frame \<Rightarrow> string list \<Rightarrow> string list \<Rightarrow> (nat \<times> nat option) list
     \<Rightarrow> 'v frame" where
  "reindex_and_concat left right llabels rlabels pairs =
     zip llabels (map (\<lambda>p. take_rows (snd p) (map (Some \<circ> fst) pairs)) left)
     @ zip rlabels (map (\<lambda>p. take_rows (snd p) (map snd pairs)) right)"

definition merge ::
  "pandas \<Rightarrow> 'v frame \<Rightarrow> 'v frame \<Rightarrow> string \<Rightarrow> string \<Rightarrow> string \<times> string \<Rightarrow> error + 'v frame" where
  "merge pv left right left_on right_on suffixes =
     bind (key_column left left_on) (\<lambda>lkeys.
     bind (key_column right right_on) (\<lambda>rkeys.
       (case drop_join_key left right left_on right_on of (left1, right1) \<Rightarrow>
          bind (items_overlap_with_suffix pv (columns left1) (columns right1) suffixes)
            (\<lambda>labels. Inr (reindex_and_concat left1 right1 (fst labels) (snd labels)
                                (left_outer_join lkeys rkeys))))))"

section \<open>The merger: \<^verbatim>\<open>merge_all_data\<close>\<close>

text \<open>\<^verbatim>\<open>str.lower\<close> and \<^verbatim>\<open>term in col\<close>, on ASCII names.\<close>

definition lower_char :: "char \<Rightarrow> char" where
  "lower_char c =
     (let n = (of_char c :: nat) in if 65 \<le> n \<and> n \<le> 90 then char_of (n + 32) else c)"

definition lower :: "string \<Rightarrow> string" where
  "lower s = map lower_char s"

fun startswith :: "string \<Rightarrow> string \<Rightarrow> bool" where
  "startswith s [] = True"
| "startswith [] (t # ts) = False"
| "startswith (c # s) (t # ts) = (c = t \<and> startswith s ts)"

fun contains :: "string \<Rightarrow> string \<Rightarrow> bool" where
  "contains [] t = (t = [])"
| "contains (c # s) t = (startswith (c # s) t \<or> contains s t)"

text \<open>Lines 270 to 272.\<close>

definition time_like :: "string \<Rightarrow> bool" where
  "time_like col = list_ex (\<lambda>t. contains (lower col) t) [''time'', ''date'', ''timestamp'']"

definition time_cols :: "'v frame \<Rightarrow> string list" where
  "time_cols merge_df = filter time_like (columns merge_df)"

text \<open>\<^verbatim>\<open>isnull\<close> on one element: the missing markers are \<^verbatim>\<open>NaN\<close> and \<^verbatim>\<open>NaT\<close>.\<close>

fun isnull :: "'v scalar \<Rightarrow> bool" where
  "isnull (Cell NaN) = True"
| "isnull (Stamp tz None) = True"
| "isnull x = False"

text \<open>\<^verbatim>\<open>df.empty\<close>: no column, or no row.\<close>

definition df_empty :: "'v frame \<Rightarrow> bool" where
  "df_empty df = (df = [] \<or> nrows df = 0)"

text \<open>Lines 262 to 289: the loop over the registry, in its order.\<close>

fun merge_others :: "pandas \<Rightarrow> 'v frame \<Rightarrow> 'v registry \<Rightarrow> error + 'v frame" where
  "merge_others pv final_df [] = Inr final_df"
| "merge_others pv final_df ((name, None) # rest) = merge_others pv final_df rest"
| "merge_others pv final_df ((name, Some df) # rest) =
     (if df_empty df \<or> name = ''blood_glucose'' then merge_others pv final_df rest
      else (case time_cols df of
              [] \<Rightarrow> merge_others pv final_df rest
            | primary_time_col # others \<Rightarrow>
                bind (merge pv final_df df ''timestamp'' primary_time_col ([], ''_'' @ name))
                     (\<lambda>final_df. merge_others pv final_df rest)))"

text \<open>Line 292: of the columns with one name, the first stays.\<close>

fun drop_duplicated :: "string list \<Rightarrow> 'v frame \<Rightarrow> 'v frame" where
  "drop_duplicated seen [] = []"
| "drop_duplicated seen ((n, col) # df) =
     (if n \<in> set seen then drop_duplicated seen df else (n, col) # drop_duplicated (n # seen) df)"

text \<open>Lines 242 to 256: the timeline, then the primary series with the default suffixes.\<close>

definition merge_primary :: "pandas \<Rightarrow> 'v frame \<Rightarrow> 'v registry \<Rightarrow> error + 'v frame" where
  "merge_primary pv final_df data_frames =
     (case map_of data_frames ''blood_glucose'' of
        None \<Rightarrow> Inr final_df
      | Some None \<Rightarrow> Inl NoBloodGlucose
      | Some (Some bgl_df) \<Rightarrow> merge pv final_df bgl_df ''timestamp'' ''date'' (''_x'', ''_y''))"

definition merge_all_data :: "pandas \<Rightarrow> 'v registry \<Rightarrow> error + 'v frame" where
  "merge_all_data pv data_frames =
     bind (create_base_timeline data_frames) (\<lambda>base.
     bind (merge_primary pv base data_frames) (\<lambda>with_bgl.
     bind (merge_others pv with_bgl data_frames) (\<lambda>final_df.
     Inr (drop_duplicated [] final_df))))"

text \<open>
  The registry holds references: names to addresses in the store. Every frame the merger
  builds (the timeline, the copies of lines 247 and 267, each result of \<^verbatim>\<open>pd.merge\<close>,
  the selection of line 292) is a new object; the registered frames are only read. The
  intermediate objects are unreachable afterwards, so only the returned frame is allocated
  here.
\<close>

definition merge_all_data_obj ::
  "pandas \<Rightarrow> 'v store \<Rightarrow> (string \<times> nat option) list \<Rightarrow> 'v store \<times> (error + nat)" where
  "merge_all_data_obj pv st data_frames =
     (case merge_all_data pv (map (\<lambda>(name, a). (name, map_option (\<lambda>i. st ! i) a)) data_frames) of
        Inl e \<Rightarrow> (st, Inl e)
      | Inr final_df \<Rightarrow> (st @ [final_df], Inr (length st)))"

section \<open>A hypothesis of the row-count property\<close>

text \<open>
  No secondary series that the loop joins has two rows with one timestamp in its join
  column.
\<close>

definition unique_keys :: "'v registry \<Rightarrow> bool" where
  "unique_keys reg \<longleftrightarrow>
     (\<forall>name df c cs rk. (name, Some df) \<in> set reg \<and> name \<noteq> ''blood_glucose'' \<and>
        time_cols df = c # cs \<and> key_column df c = Inr rk \<longrightarrow> distinct rk)"

section \<open>Rounding to the minute\<close>

lemma round_min_mod: "round_min v mod ns_per_minute = 0"
  by (simp add: round_min_def round_nsint64_def Let_def ns_per_minute_def ns_per_second_def)

lemma round_min_near: "\<bar>round_min v - v\<bar> \<le> 30 * ns_per_second"
  unfolding round_min_def round_nsint64_def Let_def ns_per_minute_def ns_per_second_def
  by (auto simp: algebra_simps) presburger+

lemma round_min_fixed: "v mod ns_per_minute = 0 \<Longrightarrow> round_min v = v"
  unfolding round_min_def round_nsint64_def Let_def ns_per_minute_def ns_per_second_def
  by auto

lemma round_min_tie:
  "v mod ns_per_minute = 30 * ns_per_second \<Longrightarrow>
   round_min v = (if even (v div ns_per_minute) then v - 30 * ns_per_second
                  else v + 30 * ns_per_second)"
  unfolding round_min_def round_nsint64_def Let_def ns_per_minute_def ns_per_second_def
  by (auto simp: algebra_simps) presburger+

section \<open>The steps of the normalizer\<close>

lemma bind_Inl [simp]: "bind (Inl e) f = Inl e"
  by (simp add: bind_def)

lemma bind_Inr [simp]: "bind (Inr x) f = f x"
  by (simp add: bind_def)

lemma map_minus_zero [simp]: "map (map_option (\<lambda>v::int. v - 0)) vs = vs"
  by (induction vs) (auto simp: option.map_ident)

lemma orig_utc_of_Datetime:
  "orig_utc_of (Datetime tz vs) = Inr (Datetime (Some UTC) (map (map_option round_min) vs))"
  by (cases tz) (simp_all add: orig_utc_of_def option.map_ident)

lemma final_of_Datetime:
  "final_of (Datetime tz vs) = Inr (Datetime None (map (map_option round_min) vs))"
  by (cases tz) (simp_all add: final_of_def option.map_ident)

lemma orig_utc_of_Object: "orig_utc_of (Object cs) = Inl NoDtAccessor"
  by (simp add: orig_utc_of_def)

text \<open>
  What a successful run is: the column resolves and exists, it is or parses to a datetime
  column, and both the reference and the final column are its values in UTC, rounded.
\<close>

lemma standardize_Inr_iff:
  "standardize_timestamp df dc = Inr (df', adj) \<longleftrightarrow>
   (\<exists>c col tz vs. resolve_date_col df dc = Inr c \<and> getitem df c = Inr col \<and>
      ensure_datetime col = Inr (Datetime tz vs) \<and>
      df' = setitem df c (Datetime None (map (map_option round_min) vs)) \<and>
      adj = adjustments_from col 0 (map (map_option round_min) vs)
              (map (map_option round_min) vs))"
proof -
  have *: "bind p (\<lambda>x::'a column.
             bind (orig_utc_of x) (\<lambda>orig_utc. bind (final_of x) (\<lambda>fin.
               Inr (setitem df c fin,
                    adjustments_from col 0 (stamps orig_utc) (stamps fin))))) = Inr (df', adj)
        \<longleftrightarrow> (\<exists>tz vs. p = Inr (Datetime tz vs) \<and>
               df' = setitem df c (Datetime None (map (map_option round_min) vs)) \<and>
               adj = adjustments_from col 0 (map (map_option round_min) vs)
                       (map (map_option round_min) vs))" for p c col
  proof (cases p)
    case (Inl e) then show ?thesis by simp
  next
    case (Inr x) then show ?thesis
      by (cases x) (auto simp: orig_utc_of_Datetime final_of_Datetime orig_utc_of_Object)
  qed
  show ?thesis
    unfolding standardize_timestamp_def
    apply (cases "resolve_date_col df dc")
     apply simp
    subgoal for c
      apply (cases "getitem df c")
       apply simp
      subgoal for col
        using *[where p = "ensure_datetime col" and c = c and col = col]
        by simp
      done
    done
qed

lemma getitem_setitem:
  "getitem df c = Inr col \<Longrightarrow> getitem (setitem df c new) c = Inr new"
  by (induction df) (auto simp: getitem_def split: option.splits if_splits)

lemma columns_setitem:
  "getitem df c = Inr col \<Longrightarrow> columns (setitem df c new) = columns df"
  by (induction df) (auto simp: getitem_def columns_def split: option.splits if_splits)

lemma map_of_setitem_other:
  "n \<noteq> c \<Longrightarrow> map_of (setitem df c new) n = map_of df n"
  by (induction df) auto

lemma setitem_same:
  "getitem df c = Inr col \<Longrightarrow> setitem df c col = df"
  by (induction df) (auto simp: getitem_def split: option.splits if_splits)

lemma to_datetime_Datetime:
  "to_datetime cs = Inr (Datetime tz vs) \<Longrightarrow> vs = map parse_cell cs"
  by (auto simp: to_datetime_def split: option.splits list.splits if_splits)

section \<open>The adjustment records\<close>

lemma ts_ne_same: "ts_ne a a \<longleftrightarrow> a = None"
  by (cases a) simp_all

lemma adjustments_same_fields:
  "a \<in> set (adjustments_from col i xs xs) \<Longrightarrow>
   original_utc a = None \<and> final a = None \<and> difference_seconds a = None"
proof (induction xs arbitrary: i)
  case Nil then show ?case by simp
next
  case (Cons x xs)
  then show ?case by (cases x) (auto split: if_splits)
qed

lemma adjustments_same_index:
  "map index (adjustments_from col i xs xs) =
   map (\<lambda>j. i + j) (filter (\<lambda>j. xs ! j = None) [0 ..< length xs])"
proof (induction xs arbitrary: i)
  case Nil then show ?case by simp
next
  case (Cons x xs)
  have upt: "[0 ..< length (x # xs)] = 0 # map Suc [0 ..< length xs]"
    by (simp add: upt_conv_Cons map_Suc_upt del: upt_Suc)
  show ?case
    unfolding upt
    by (cases x) (simp_all add: Cons.IH filter_map comp_def)
qed

lemma adjustments_same_Nil:
  "None \<notin> set xs \<Longrightarrow> adjustments_from col i xs xs = []"
proof (induction xs arbitrary: i)
  case Nil then show ?case by simp
next
  case (Cons x xs)
  then obtain y where "x = Some y" by (cases x) auto
  with Cons show ?case by simp
qed

text \<open>
  Claim C3: whenever normalization succeeds, the list of adjustment records is empty,
  since the reference of a row equals its final value. The code misses this on a series
  with a missing timestamp: the reference and the final value of that row are both
  \<^verbatim>\<open>NaT\<close>, the test of line 52 is meant to find the rows that changed, and
  \<^verbatim>\<open>NaT != NaT\<close> holds, so the unchanged row is recorded.
\<close>

theorem adjustments_nonempty_for_missing_timestamp:
  "standardize_timestamp [(''date'', Object [NaiveStr 0, NaN :: nat cell])] None =
   Inr ([(''date'', Datetime None [Some 0, None])],
        [\<lparr>index = 1, original = Cell NaN, original_utc = None, final = None,
          difference_seconds = None\<rparr>])"
  by code_simp

text \<open>
  The extent of that defect: the reference column and the final column always hold the
  same values (the UTC values of the parsed column, rounded to the minute); the records
  are exactly the rows whose timestamp is missing, and there is none when no timestamp is
  missing.
\<close>

lemma records_are_the_missing_timestamps:
  assumes "standardize_timestamp df dc = Inr (df', adj)"
  shows "\<exists>c parsed vs.
           resolve_date_col df dc = Inr c \<and>
           bind (getitem df c) ensure_datetime = Inr parsed \<and>
           orig_utc_of parsed = Inr (Datetime (Some UTC) vs) \<and>
           final_of parsed = Inr (Datetime None vs) \<and>
           getitem df' c = Inr (Datetime None vs) \<and>
           map index adj = filter (\<lambda>j. vs ! j = None) [0 ..< length vs] \<and>
           (\<forall>a \<in> set adj. original_utc a = None \<and> final a = None \<and>
                           difference_seconds a = None) \<and>
           (None \<notin> set vs \<longrightarrow> adj = [])"
proof -
  from assms obtain c col tz ws where
    c: "resolve_date_col df dc = Inr c" and col: "getitem df c = Inr col" and
    p: "ensure_datetime col = Inr (Datetime tz ws)" and
    df': "df' = setitem df c (Datetime None (map (map_option round_min) ws))" and
    adj: "adj = adjustments_from col 0 (map (map_option round_min) ws)
                  (map (map_option round_min) ws)"
    unfolding standardize_Inr_iff by blast
  let ?vs = "map (map_option round_min) ws"
  have 1: "bind (getitem df c) ensure_datetime = Inr (Datetime tz ws)"
    using col p by simp
  have 2: "getitem df' c = Inr (Datetime None ?vs)"
    using col df' by (simp add: getitem_setitem)
  have 3: "map index adj = filter (\<lambda>j. ?vs ! j = None) [0 ..< length ?vs]"
  proof -
    have "(+) (0::nat) = (\<lambda>j. j)" by auto
    then show ?thesis unfolding adj adjustments_same_index by simp
  qed
  have 4: "\<forall>a \<in> set adj. original_utc a = None \<and> final a = None \<and>
             difference_seconds a = None"
    unfolding adj using adjustments_same_fields by blast
  have 5: "None \<notin> set ?vs \<longrightarrow> adj = []"
    unfolding adj using adjustments_same_Nil by blast
  show ?thesis
    using c 1 2 3 4 5 orig_utc_of_Datetime[of tz ws] final_of_Datetime[of tz ws] by blast
qed

lemma records_are_the_missing_timestamps_example:
  "standardize_timestamp [(''date'', Object [NaiveStr 90000000000, NaN :: nat cell])] None =
     Inr ([(''date'', Datetime None [Some 120000000000, None])],
          [\<lparr>index = 1, original = Cell NaN, original_utc = None, final = None,
            difference_seconds = None\<rparr>]) \<and>
   (\<exists>c parsed vs.
      resolve_date_col [(''date'', Object [NaiveStr 90000000000, NaN :: nat cell])] None = Inr c \<and>
      bind (getitem [(''date'', Object [NaiveStr 90000000000, NaN :: nat cell])] c) ensure_datetime
        = Inr parsed \<and>
      orig_utc_of parsed = Inr (Datetime (Some UTC) vs) \<and>
      final_of parsed = Inr (Datetime None vs) \<and>
      getitem [(''date'', Datetime None [Some 120000000000, None] :: nat column)] c
        = Inr (Datetime None vs) \<and>
      map index [\<lparr>index = 1, original = Cell (NaN :: nat cell), original_utc = None, final = None,
                  difference_seconds = None\<rparr>]
        = filter (\<lambda>j. vs ! j = None) [0 ..< length vs] \<and>
      (\<forall>a \<in> set [\<lparr>index = 1, original = Cell (NaN :: nat cell), original_utc = None,
                     final = None, difference_seconds = None\<rparr>].
          original_utc a = None \<and> final a = None \<and> difference_seconds a = None) \<and>
      (None \<notin> set vs \<longrightarrow>
         [\<lparr>index = 1, original = Cell (NaN :: nat cell), original_utc = None, final = None,
           difference_seconds = None\<rparr>] = []))"
proof -
  have h: "standardize_timestamp [(''date'', Object [NaiveStr 90000000000, NaN :: nat cell])] None =
     Inr ([(''date'', Datetime None [Some 120000000000, None])],
          [\<lparr>index = 1, original = Cell NaN, original_utc = None, final = None,
            difference_seconds = None\<rparr>])"
    by code_simp
  show ?thesis
    by (rule conjI [OF h records_are_the_missing_timestamps [OF h]])
qed

section \<open>Parsing and the columns it accepts\<close>


lemma resolve_date_col_cong:
  "columns df = columns df' \<Longrightarrow> resolve_date_col df dc = resolve_date_col df' dc"
  unfolding resolve_date_col_def by (simp split: option.splits)

lemma standardize_Datetime:
  assumes "resolve_date_col df dc = Inr c" "getitem df c = Inr (Datetime tz ws)"
  shows "standardize_timestamp df dc =
           Inr (setitem df c (Datetime None (map (map_option round_min) ws)),
                adjustments_from (Datetime tz ws) 0 (map (map_option round_min) ws)
                  (map (map_option round_min) ws))"
  unfolding standardize_Inr_iff
  by (rule exI[of _ c], rule exI[of _ "Datetime tz ws"], rule exI[of _ tz], rule exI[of _ ws])
     (simp add: assms)

lemma round_min_round_min: "round_min (round_min v) = round_min v"
  by (rule round_min_fixed) (rule round_min_mod)

lemma remdups_subset_singleton:
  "set xs \<subseteq> {m} \<Longrightarrow> remdups xs = [] \<or> remdups xs = [m]"
proof (induction xs)
  case Nil then show ?case by simp
next
  case (Cons x xs)
  then have x: "x = m" and xs: "set xs \<subseteq> {m}" by auto
  show ?case
  proof (cases "x \<in> set xs")
    case True with Cons.IH[OF xs] show ?thesis by simp
  next
    case False
    with xs x have "xs = []" by (cases xs) auto
    with x show ?thesis by simp
  qed
qed

lemma remdups_two:
  assumes "a \<in> set xs" "b \<in> set xs" "a \<noteq> b"
  shows "\<exists>x y zs. remdups xs = x # y # zs"
proof (cases "remdups xs")
  case Nil
  then have "set xs = {}" by (metis set_remdups set_empty)
  with assms show ?thesis by simp
next
  case (Cons x ys)
  show ?thesis
  proof (cases ys)
    case Nil
    with Cons have "set xs = {x}" by (metis set_remdups list.simps(15) empty_set)
    with assms show ?thesis by auto
  next
    case (Cons y zs)
    with \<open>remdups xs = x # ys\<close> show ?thesis by simp
  qed
qed

lemma tz_marks_naive: "NaiveStr t \<in> set cs \<Longrightarrow> None \<in> set (tz_marks cs)"
  by (induction cs rule: tz_marks.induct) auto

lemma tz_marks_aware: "AwareStr t off \<in> set cs \<Longrightarrow> Some off \<in> set (tz_marks cs)"
  by (induction cs rule: tz_marks.induct) auto

lemma to_datetime_mixed:
  assumes "NaiveStr t \<in> set cs" "AwareStr t' off \<in> set cs"
  shows "to_datetime cs = Inr (Object cs) \<or> (\<exists>i. to_datetime cs = Inl (UnparseableTimestamp i))"
proof -
  obtain x y zs where "remdups (tz_marks cs) = x # y # zs"
    using remdups_two[OF tz_marks_naive[OF assms(1)] tz_marks_aware[OF assms(2)]] by auto
  then show ?thesis
    by (cases "first_other cs 0") (auto simp: to_datetime_def split: option.splits)
qed

lemma to_datetime_uniform:
  assumes "first_other cs 0 = None" "set (tz_marks cs) \<subseteq> {m}"
  shows "\<exists>tz. to_datetime cs = Inr (Datetime tz (map parse_cell cs))"
  using remdups_subset_singleton[OF assms(2)] assms(1)
  by (cases m) (auto simp: to_datetime_def)

lemma standardize_Inl:
  assumes "resolve_date_col df dc = Inr c" "getitem df c = Inr col"
    and "ensure_datetime col = Inr (Object cs) \<or> (\<exists>e. ensure_datetime col = Inl e)"
  shows "\<exists>e. standardize_timestamp df dc = Inl e"
proof (cases "standardize_timestamp df dc")
  case (Inl e) then show ?thesis by blast
next
  case (Inr r)
  obtain df' adj where "r = (df', adj)" by (cases r)
  with Inr have "standardize_timestamp df dc = Inr (df', adj)" by simp
  then obtain c' col' tz vs where "resolve_date_col df dc = Inr c'" "getitem df c' = Inr col'"
      "ensure_datetime col' = Inr (Datetime tz vs)"
    unfolding standardize_Inr_iff by blast
  with assms show ?thesis by auto
qed

lemma first_other_None: "first_other cs i = None \<longleftrightarrow> (\<forall>v. Other v \<notin> set cs)"
  by (induction cs i rule: first_other.induct) auto

lemma parse_cell_None: "parse_cell x = None \<longleftrightarrow> x = NaN \<or> (\<exists>v. x = Other v)"
  by (cases x) auto

lemma standardize_output_canonical:
  assumes "standardize_timestamp df dc = Inr (df', adj)"
  shows "\<exists>c vs. resolve_date_col df dc = Inr c \<and> getitem df' c = Inr (Datetime None vs) \<and>
           (\<forall>v. Some v \<in> set vs \<longrightarrow> v mod ns_per_minute = 0) \<and>
           (\<exists>adj'. standardize_timestamp df' dc = Inr (df', adj'))"
proof -
  from assms obtain c col tz ws where
    c: "resolve_date_col df dc = Inr c" and col: "getitem df c = Inr col" and
    p: "ensure_datetime col = Inr (Datetime tz ws)" and
    df': "df' = setitem df c (Datetime None (map (map_option round_min) ws))"
    unfolding standardize_Inr_iff by blast
  let ?vs = "map (map_option round_min) ws"
  have g: "getitem df' c = Inr (Datetime None ?vs)"
    using col df' by (simp add: getitem_setitem)
  have m: "\<forall>v. Some v \<in> set ?vs \<longrightarrow> v mod ns_per_minute = 0"
  proof (intro allI impI)
    fix v assume "Some v \<in> set ?vs"
    then obtain x where "Some v = map_option round_min x" by auto
    then show "v mod ns_per_minute = 0" by (cases x) (auto simp: round_min_mod)
  qed
  have cols: "columns df' = columns df"
    using col df' by (simp add: columns_setitem)
  have c': "resolve_date_col df' dc = Inr c"
    using resolve_date_col_cong[OF cols] c by simp
  have again: "map (map_option round_min) ?vs = ?vs"
    by (simp add: option.map_comp comp_def round_min_round_min)
  have same: "setitem df' c (Datetime None ?vs) = df'"
    using g by (rule setitem_same)
  have "standardize_timestamp df' dc = Inr (df', adjustments_from (Datetime None ?vs) 0 ?vs ?vs)"
    using standardize_Datetime[OF c' g] unfolding again same .
  with c g m show ?thesis by blast
qed

lemma standardize_canonical_noop:
  assumes "resolve_date_col df dc = Inr c" and "getitem df c = Inr (Datetime None vs)"
      and "\<forall>v. Some v \<in> set vs \<longrightarrow> v mod ns_per_minute = 0"
  shows "\<exists>adj. standardize_timestamp df dc = Inr (df, adj)"
proof -
  have "map_option round_min x = x" if "x \<in> set vs" for x
  proof (cases x)
    case None then show ?thesis by simp
  next
    case (Some v)
    with that assms(3) have "v mod ns_per_minute = 0" by blast
    with Some show ?thesis by (simp add: round_min_fixed)
  qed
  then have again: "map (map_option round_min) vs = vs"
    by (simp add: map_idI)
  have same: "setitem df c (Datetime None vs) = df"
    using assms(2) by (rule setitem_same)
  show ?thesis
    using standardize_Datetime[OF assms(1,2)] unfolding again same by blast
qed

section \<open>Claims about the normalizer\<close>

text \<open>
  Claim C1, as stated: a value with seconds exactly 30 is rounded to the next minute, and a
  record classified \<open>round_up\<close> with a difference of 30 seconds is produced. For the
  input 2023-01-01 12:00:30Z the normalizer returns 12:00 and no record at all.
\<close>

theorem half_minute_tie_can_round_down:
  "standardize_timestamp
     [(''timestamp'', Object [AwareStr 1672574430000000000 0 :: nat cell])] None =
   Inr ([(''timestamp'', Datetime None [Some 1672574400000000000])], []) \<and>
   (1672574400000000000 :: int) \<noteq> 1672574430000000000 + 30 * ns_per_second"
  by code_simp

text \<open>
  Claim C1, amended: rounding to the nearest minute resolves ties toward the minute whose
  count since the epoch is even (round half to even): for every parsed instant whose
  seconds component is exactly 30, the Canonical Timestamp is the minute before when that
  minute's count is even, and the next minute otherwise.
\<close>

theorem ties_round_to_even_minute:
  assumes "standardize_timestamp df dc = Inr (df', adj)"
      and "resolve_date_col df dc = Inr c"
      and "bind (getitem df c) ensure_datetime = Inr (Datetime tz ws)"
      and "i < length ws"
      and "ws ! i = Some t"
      and "t mod ns_per_minute = 30 * ns_per_second"
  shows "\<exists>vs. getitem df' c = Inr (Datetime None vs) \<and>
              vs ! i = Some (if even (t div ns_per_minute) then t - 30 * ns_per_second
                             else t + 30 * ns_per_second)"
proof -
  from assms(1) obtain c' col tz' ws' where
    c: "resolve_date_col df dc = Inr c'" and col: "getitem df c' = Inr col" and
    p: "ensure_datetime col = Inr (Datetime tz' ws')" and
    df': "df' = setitem df c' (Datetime None (map (map_option round_min) ws'))"
    unfolding standardize_Inr_iff by blast
  from c assms(2) have [simp]: "c' = c" by simp
  from assms(3) col p have [simp]: "ws' = ws" by simp
  have "getitem df' c = Inr (Datetime None (map (map_option round_min) ws))"
    using col df' by (simp add: getitem_setitem)
  moreover have "map (map_option round_min) ws ! i = Some (round_min t)"
    using assms(4,5) by simp
  ultimately show ?thesis using round_min_tie[OF assms(6)] by simp
qed

theorem ties_round_to_even_minute_witness:
  "\<exists>vs. getitem [(''timestamp'', Datetime None [Some 1672574400000000000] :: nat column)]
           ''timestamp'' = Inr (Datetime None vs) \<and>
        vs ! 0 = Some (if even (1672574430000000000 div ns_per_minute)
                       then 1672574430000000000 - 30 * ns_per_second
                       else 1672574430000000000 + 30 * ns_per_second)"
proof -
  have h1: "standardize_timestamp
       [(''timestamp'', Object [AwareStr 1672574430000000000 0 :: nat cell])] None =
     Inr ([(''timestamp'', Datetime None [Some 1672574400000000000])], [])"
    by code_simp
  have h2: "resolve_date_col
       [(''timestamp'', Object [AwareStr 1672574430000000000 0 :: nat cell])] None
       = Inr ''timestamp''"
    by code_simp
  have h3: "bind (getitem [(''timestamp'', Object [AwareStr 1672574430000000000 0 :: nat cell])]
                   ''timestamp'') ensure_datetime
       = Inr (Datetime (Some UTC) [Some 1672574430000000000])"
    by code_simp
  have h4: "0 < length [Some (1672574430000000000 :: int)]" by simp
  have h5: "[Some (1672574430000000000 :: int)] ! 0 = Some 1672574430000000000" by simp
  have h6: "1672574430000000000 mod ns_per_minute = 30 * ns_per_second"
    by (simp add: ns_per_minute_def ns_per_second_def)
  show ?thesis
    by (rule ties_round_to_even_minute [OF h1 h2 h3 h4 h5 h6])
qed

text \<open>
  Claim C4, as stated: a column that mixes rows with explicit offsets and rows without is
  normalized without raising. For such a column \<^verbatim>\<open>to_datetime\<close> gives no datetime
  column and the \<^verbatim>\<open>.dt\<close> accessor of line 35 raises.
\<close>

theorem mixed_offsets_column_raises:
  "standardize_timestamp
     [(''timestamp'', Object [AwareStr 1672574430000000000 0,
                              NaiveStr 1672574430000000000 :: nat cell])] None =
   Inl NoDtAccessor"
  by code_simp

text \<open>
  Claim C4, amended: the rows of a timestamp column must agree on the offset. For every
  series whose timestamp column contains both a row with an explicit offset and a row
  without one, normalization raises; for every series whose timestamp column has no
  unparseable cell and whose strings are all without offset, or all carry the same offset,
  normalization succeeds and yields a Canonical Timestamp for every row that has a
  timestamp.
\<close>

theorem offsets_must_agree:
  assumes "resolve_date_col df dc = Inr c" and "getitem df c = Inr (Object cs)"
  shows "((\<exists>t t' off. NaiveStr t \<in> set cs \<and> AwareStr t' off \<in> set cs) \<longrightarrow>
            (\<exists>e. standardize_timestamp df dc = Inl e)) \<and>
         ((\<forall>v. Other v \<notin> set cs) \<and> (\<exists>m. set (tz_marks cs) \<subseteq> {m}) \<longrightarrow>
            (\<exists>df' adj vs. standardize_timestamp df dc = Inr (df', adj) \<and>
               getitem df' c = Inr (Datetime None vs) \<and> length vs = length cs \<and>
               (\<forall>i < length cs. cs ! i \<noteq> NaN \<longrightarrow>
                  (\<exists>v. vs ! i = Some v \<and> v mod ns_per_minute = 0))))"
proof (intro conjI impI)
  assume "\<exists>t t' off. NaiveStr t \<in> set cs \<and> AwareStr t' off \<in> set cs"
  then obtain t t' off where "NaiveStr t \<in> set cs" "AwareStr t' off \<in> set cs" by blast
  from to_datetime_mixed[OF this]
  have "ensure_datetime (Object cs) = Inr (Object cs) \<or> (\<exists>e. ensure_datetime (Object cs) = Inl e)"
    by auto
  from standardize_Inl[OF assms this] show "\<exists>e. standardize_timestamp df dc = Inl e" .
next
  assume a: "(\<forall>v. Other v \<notin> set cs) \<and> (\<exists>m. set (tz_marks cs) \<subseteq> {m})"
  then obtain m where m: "set (tz_marks cs) \<subseteq> {m}" by blast
  from a have "first_other cs 0 = None" by (simp add: first_other_None)
  from to_datetime_uniform[OF this m] obtain tz where
    p: "ensure_datetime (Object cs) = Inr (Datetime tz (map parse_cell cs))" by auto
  let ?vs = "map (map_option round_min) (map parse_cell cs)"
  have s: "standardize_timestamp df dc =
        Inr (setitem df c (Datetime None ?vs), adjustments_from (Object cs) 0 ?vs ?vs)"
    unfolding standardize_Inr_iff using assms p by blast
  have g: "getitem (setitem df c (Datetime None ?vs)) c = Inr (Datetime None ?vs)"
    using assms(2) by (simp add: getitem_setitem)
  have r: "\<forall>i < length cs. cs ! i \<noteq> NaN \<longrightarrow> (\<exists>v. ?vs ! i = Some v \<and> v mod ns_per_minute = 0)"
  proof (intro allI impI)
    fix i assume i: "i < length cs" and n: "cs ! i \<noteq> NaN"
    from a i have "\<forall>v. cs ! i \<noteq> Other v" by (metis nth_mem)
    with n obtain t where "parse_cell (cs ! i) = Some t"
      using parse_cell_None[of "cs ! i"] by (cases "parse_cell (cs ! i)") auto
    with i show "\<exists>v. ?vs ! i = Some v \<and> v mod ns_per_minute = 0"
      by (simp add: round_min_mod)
  qed
  show "\<exists>df' adj vs. standardize_timestamp df dc = Inr (df', adj) \<and>
               getitem df' c = Inr (Datetime None vs) \<and> length vs = length cs \<and>
               (\<forall>i < length cs. cs ! i \<noteq> NaN \<longrightarrow>
                  (\<exists>v. vs ! i = Some v \<and> v mod ns_per_minute = 0))"
    using s g r by (intro exI[of _ "setitem df c (Datetime None ?vs)"] exI[of _ ?vs] exI conjI) auto
qed

theorem offsets_must_agree_witness:
  "(\<exists>e. standardize_timestamp
          [(''timestamp'', Object [AwareStr 1672574430000000000 0,
                                   NaiveStr 1672574430000000000 :: nat cell])] None = Inl e) \<and>
   (\<exists>df' adj vs. standardize_timestamp
          [(''timestamp'', Object [AwareStr 1672574430000000000 3600,
                                   AwareStr 1672574400000000000 3600, NaN :: nat cell])] None
          = Inr (df', adj) \<and>
        getitem df' ''timestamp'' = Inr (Datetime None vs) \<and>
        length vs = length [AwareStr 1672574430000000000 3600,
                            AwareStr 1672574400000000000 3600, NaN :: nat cell] \<and>
        (\<forall>i < length [AwareStr 1672574430000000000 3600,
                        AwareStr 1672574400000000000 3600, NaN :: nat cell].
            [AwareStr 1672574430000000000 3600,
             AwareStr 1672574400000000000 3600, NaN :: nat cell] ! i \<noteq> NaN \<longrightarrow>
            (\<exists>v. vs ! i = Some v \<and> v mod ns_per_minute = 0)))"
proof -
  have a1: "resolve_date_col
          [(''timestamp'', Object [AwareStr 1672574430000000000 0,
                                   NaiveStr 1672574430000000000 :: nat cell])] None
        = Inr ''timestamp''"
    by code_simp
  have a2: "getitem
          [(''timestamp'', Object [AwareStr 1672574430000000000 0,
                                   NaiveStr 1672574430000000000 :: nat cell])] ''timestamp''
        = Inr (Object [AwareStr 1672574430000000000 0, NaiveStr 1672574430000000000])"
    by code_simp
  have a3: "\<exists>t t' off. NaiveStr t \<in> set [AwareStr 1672574430000000000 0,
                                   NaiveStr 1672574430000000000 :: nat cell] \<and>
              AwareStr t' off \<in> set [AwareStr 1672574430000000000 0,
                                   NaiveStr 1672574430000000000 :: nat cell]"
    by auto
  have b1: "resolve_date_col
          [(''timestamp'', Object [AwareStr 1672574430000000000 3600,
                                   AwareStr 1672574400000000000 3600, NaN :: nat cell])] None
        = Inr ''timestamp''"
    by code_simp
  have b2: "getitem
          [(''timestamp'', Object [AwareStr 1672574430000000000 3600,
                                   AwareStr 1672574400000000000 3600, NaN :: nat cell])] ''timestamp''
        = Inr (Object [AwareStr 1672574430000000000 3600,
                       AwareStr 1672574400000000000 3600, NaN])"
    by code_simp
  have b3: "(\<forall>v. Other v \<notin> set [AwareStr 1672574430000000000 3600,
                                   AwareStr 1672574400000000000 3600, NaN :: nat cell]) \<and>
            (\<exists>m. set (tz_marks [AwareStr 1672574430000000000 3600,
                                   AwareStr 1672574400000000000 3600, NaN :: nat cell]) \<subseteq> {m})"
    by auto
  show ?thesis
    using offsets_must_agree [OF a1 a2, THEN conjunct1, THEN mp, OF a3]
          offsets_must_agree [OF b1 b2, THEN conjunct2, THEN mp, OF b3]
    by (rule conjI)
qed



text \<open>
  Claim C8: after normalization every value of the timestamp column is a whole minute and
  the column carries no zone; normalizing the result again changes nothing, and
  normalizing any series whose timestamp column is already canonical returns the series
  unchanged, rows in the same order.
\<close>

theorem normalized_column_canonical_and_stable:
  "(standardize_timestamp df dc = Inr (df', adj) \<longrightarrow>
      (\<exists>c vs. resolve_date_col df dc = Inr c \<and> getitem df' c = Inr (Datetime None vs) \<and>
         (\<forall>v. Some v \<in> set vs \<longrightarrow> v mod ns_per_minute = 0) \<and>
         (\<exists>adj'. standardize_timestamp df' dc = Inr (df', adj')))) \<and>
   (resolve_date_col df dc = Inr c \<and> getitem df c = Inr (Datetime None vs) \<and>
      (\<forall>v. Some v \<in> set vs \<longrightarrow> v mod ns_per_minute = 0) \<longrightarrow>
      (\<exists>adj. standardize_timestamp df dc = Inr (df, adj)))"
  using standardize_output_canonical [of df dc df' adj] standardize_canonical_noop [of df dc c vs]
  by blast

theorem normalized_column_canonical_and_stable_witness:
  "(\<exists>c vs. resolve_date_col
            [(''date'', Object [NaiveStr 90000000000, NaN :: nat cell]),
             (''bgl'', Object [Other 5, Other 7])] None = Inr c \<and>
     getitem [(''date'', Datetime None [Some 120000000000, None]),
              (''bgl'', Object [Other (5::nat), Other 7])] c = Inr (Datetime None vs) \<and>
     (\<forall>v. Some v \<in> set vs \<longrightarrow> v mod ns_per_minute = 0) \<and>
     (\<exists>adj'. standardize_timestamp
               [(''date'', Datetime None [Some 120000000000, None]),
                (''bgl'', Object [Other (5::nat), Other 7])] None =
             Inr ([(''date'', Datetime None [Some 120000000000, None]),
                   (''bgl'', Object [Other 5, Other 7])], adj'))) \<and>
   (\<exists>adj. standardize_timestamp
             [(''timestamp'', Datetime None [Some 60000000000, Some 0]),
              (''value'', Object [Other (5::nat), Other 7])] None =
           Inr ([(''timestamp'', Datetime None [Some 60000000000, Some 0]),
                 (''value'', Object [Other 5, Other 7])], adj))"
proof -
  have h: "standardize_timestamp
            [(''date'', Object [NaiveStr 90000000000, NaN :: nat cell]),
             (''bgl'', Object [Other 5, Other 7])] None =
     Inr ([(''date'', Datetime None [Some 120000000000, None]),
           (''bgl'', Object [Other 5, Other 7])],
          [\<lparr>index = 1, original = Cell NaN, original_utc = None, final = None,
            difference_seconds = None\<rparr>])"
    by code_simp
  have g: "resolve_date_col [(''timestamp'', Datetime None [Some 60000000000, Some 0]),
              (''value'', Object [Other (5::nat), Other 7])] None = Inr ''timestamp'' \<and>
     getitem [(''timestamp'', Datetime None [Some 60000000000, Some 0]),
              (''value'', Object [Other (5::nat), Other 7])] ''timestamp''
       = Inr (Datetime None [Some 60000000000, Some 0]) \<and>
     (\<forall>v. Some v \<in> set [Some 60000000000, Some 0] \<longrightarrow> v mod ns_per_minute = 0)"
    by (auto simp: resolve_date_col_def date_candidates_def columns_def getitem_def
          ns_per_minute_def ns_per_second_def)
  show ?thesis
    using normalized_column_canonical_and_stable [THEN conjunct1, THEN mp, OF h]
          normalized_column_canonical_and_stable [THEN conjunct2, THEN mp, OF g]
    by (rule conjI)
qed

section \<open>The join column of the merger\<close>

lemma time_like_candidates:
  "time_like ''date''" "time_like ''timestamp''" "time_like ''creation_date''"
  "time_like ''recorded_time''" "\<not> time_like ''sleep_start''" "\<not> time_like ''sleep_end''"
  by code_simp+




section \<open>The timeline grid\<close>


lemma fold_min_Min: "fold min xs (x::int) = Min (set (x # xs))"
  using Min.set_eq_fold[of x xs] by simp

lemma fold_max_Max: "fold max xs (x::int) = Max (set (x # xs))"
  using Max.set_eq_fold[of x xs] by simp

lemma series_min_Some:
  "present vs \<noteq> [] \<Longrightarrow> series_min vs = Some (Min (set (present vs)))"
  by (cases "present vs") (simp_all add: series_min_def fold_min_Min)

lemma series_max_Some:
  "present vs \<noteq> [] \<Longrightarrow> series_max vs = Some (Max (set (present vs)))"
  by (cases "present vs") (simp_all add: series_max_def fold_max_Max)

lemma ns_per_minute_pos: "0 < ns_per_minute"
  by (simp add: ns_per_minute_def ns_per_second_def)

lemma ns_per_day_mod: "ns_per_day mod ns_per_minute = 0"
  by (simp add: ns_per_day_def)

lemma ns_per_day_div: "ns_per_day div ns_per_minute = 1440"
  using ns_per_minute_pos by (simp add: ns_per_day_def)

lemma length_date_range:
  "length (date_range s e) = nat ((e - s) div ns_per_minute + 1)"
  by (simp add: date_range_def)

lemma nth_date_range:
  "k < length (date_range s e) \<Longrightarrow> date_range s e ! k = s + int k * ns_per_minute"
  by (simp add: date_range_def)

lemma date_range_canonical:
  "s mod ns_per_minute = 0 \<Longrightarrow> v \<in> set (date_range s e) \<Longrightarrow> v mod ns_per_minute = 0"
  by (auto simp: date_range_def)

lemma last_date_range:
  assumes "s \<le> e" "(e - s) mod ns_per_minute = 0"
  shows "last (date_range s e) = e"
proof -
  let ?n = "nat ((e - s) div ns_per_minute + 1)"
  have d: "0 \<le> (e - s) div ns_per_minute"
    using assms(1) ns_per_minute_pos by (simp add: pos_imp_zdiv_nonneg_iff)
  then have n: "?n = Suc (nat ((e - s) div ns_per_minute))" by simp
  have "last (date_range s e) = s + int (nat ((e - s) div ns_per_minute)) * ns_per_minute"
    unfolding date_range_def n by (simp del: upt_Suc add: last_map)
  also have "\<dots> = s + ((e - s) div ns_per_minute) * ns_per_minute" using d by simp
  also have "\<dots> = e" using assms(2) by (simp add: mod_eq_0_iff_dvd)
  finally show ?thesis .
qed

lemma create_base_timeline_canonical:
  assumes "map_of data_frames ''blood_glucose'' = Some (Some bgl_df)"
      and "getitem bgl_df ''date'' = Inr (Datetime None vs)"
      and "series_min vs = Some mn" and "series_max vs = Some mx"
      and "mn mod ns_per_minute = 0"
      and "ts_min \<le> mn - ns_per_day" and "mx + ns_per_day \<le> ts_max"
  shows "create_base_timeline data_frames =
           Inr [(''timestamp'',
                 Datetime None (map Some (date_range (mn - ns_per_day) (mx + ns_per_day))))]"
proof -
  let ?grid = "date_range (mn - ns_per_day) (mx + ns_per_day)"
  let ?base = "[(''timestamp'', Datetime None (map Some ?grid))] :: 'a frame"
  have s: "(mn - ns_per_day) mod ns_per_minute = 0"
    using assms(5) ns_per_day_mod by (simp add: mod_eq_0_iff_dvd)
  have r: "resolve_date_col ?base (Some ''timestamp'') = Inr ''timestamp''"
    by (simp add: resolve_date_col_def)
  have g: "getitem ?base ''timestamp'' = Inr (Datetime None (map Some ?grid))"
    by (simp add: getitem_def)
  have c: "\<forall>v. Some v \<in> set (map Some ?grid) \<longrightarrow> v mod ns_per_minute = 0"
    using date_range_canonical[OF s] by auto
  from standardize_canonical_noop[OF r g c] obtain adj where
    "standardize_timestamp ?base (Some ''timestamp'') = Inr (?base, adj)" by blast
  then show ?thesis
    using assms(1-4,6,7) by (simp add: create_base_timeline_def Let_def)
qed

text \<open>
  Claim C6, as stated: every non-empty primary series has a grid. A primary series of one
  row whose timestamp is missing has no least timestamp, and \<^verbatim>\<open>date_range\<close> refuses
  the \<^verbatim>\<open>NaT\<close> bounds; a primary series stamped 2262-04-11 23:47 has no day after it
  in \<^verbatim>\<open>datetime64[ns]\<close>, and line 222 raises.
\<close>

theorem timeline_needs_timestamp_in_range:
  "create_base_timeline
     [(''blood_glucose'',
       Some [(''date'', Datetime None [None]), (''bgl'', Object [Other (5::nat)])])]
     = Inl NaTBounds \<and>
   create_base_timeline
     [(''blood_glucose'',
       Some [(''date'', Datetime None [Some 9223372020000000000]),
             (''bgl'', Object [Other (5::nat)])])]
     = Inl OutOfBoundsDatetime"
  by code_simp

text \<open>
  Claim C6, amended: for every primary series that has at least one Canonical Timestamp,
  and whose least timestamp minus one day and greatest timestamp plus one day are within
  the range of \<^verbatim>\<open>datetime64[ns]\<close>, the grid starts one day before the least timestamp,
  ends one day after the greatest, both included, and advances by exactly one minute, in
  increasing order; from 2023-01-01 00:00 to 2023-01-02 00:00 this gives 2022-12-31 00:00
  to 2023-01-03 00:00 and 4321 rows.
\<close>

theorem timeline_grid_bounds_and_spacing:
  assumes "map_of data_frames ''blood_glucose'' = Some (Some bgl_df)"
      and "getitem bgl_df ''date'' = Inr (Datetime None vs)"
      and "present vs \<noteq> []"
      and "\<forall>v \<in> set (present vs). v mod ns_per_minute = 0"
      and "ts_min \<le> Min (set (present vs)) - ns_per_day"
      and "Max (set (present vs)) + ns_per_day \<le> ts_max"
  shows "\<exists>grid. create_base_timeline data_frames = Inr [(''timestamp'', Datetime None (map Some grid))] \<and>
           length grid = nat ((Max (set (present vs)) - Min (set (present vs))) div ns_per_minute) + 2881 \<and>
           (\<forall>k < length grid. grid ! k = Min (set (present vs)) - ns_per_day + int k * ns_per_minute) \<and>
           hd grid = Min (set (present vs)) - ns_per_day \<and>
           last grid = Max (set (present vs)) + ns_per_day \<and>
           sorted_wrt (<) grid"
proof -
  let ?mn = "Min (set (present vs))" and ?mx = "Max (set (present vs))"
  let ?grid = "date_range (?mn - ns_per_day) (?mx + ns_per_day)"
  have fin: "finite (set (present vs))" "set (present vs) \<noteq> {}" using assms(3) by auto
  have mn_in: "?mn \<in> set (present vs)" and mx_in: "?mx \<in> set (present vs)"
    using fin by (auto intro: Min_in Max_in)
  have mn: "?mn mod ns_per_minute = 0" and mx: "?mx mod ns_per_minute = 0"
    using assms(4) mn_in mx_in by blast+
  have le: "?mn \<le> ?mx" by (rule Min_le[OF fin(1) mx_in])
  have day: "0 < ns_per_day" by (simp add: ns_per_day_def ns_per_minute_def ns_per_second_def)
  have diff: "(?mx + ns_per_day) - (?mn - ns_per_day) = (?mx - ?mn) + 2 * ns_per_day" by simp
  have dvd: "ns_per_minute dvd (?mx - ?mn)" "ns_per_minute dvd ns_per_day"
    using mn mx ns_per_day_mod by (auto simp: mod_eq_0_iff_dvd)
  have divd: "((?mx - ?mn) + 2 * ns_per_day) div ns_per_minute = (?mx - ?mn) div ns_per_minute + 2880"
  proof -
    have "2 * ns_per_day = 2880 * ns_per_minute" by (simp add: ns_per_day_def)
    then have "(?mx - ?mn) + 2 * ns_per_day = (?mx - ?mn) + 2880 * ns_per_minute" by simp
    then show ?thesis using ns_per_minute_pos by (simp only: div_mult_self3) simp
  qed
  have nn: "0 \<le> (?mx - ?mn) div ns_per_minute"
    using le ns_per_minute_pos by (simp add: pos_imp_zdiv_nonneg_iff)
  have len: "length ?grid = nat ((?mx - ?mn) div ns_per_minute) + 2881"
    unfolding length_date_range diff divd using nn by simp
  have nth: "\<forall>k < length ?grid. ?grid ! k = ?mn - ns_per_day + int k * ns_per_minute"
    by (simp add: nth_date_range)
  have hd: "hd ?grid = ?mn - ns_per_day"
  proof -
    have pos: "0 < length ?grid" using len by simp
    then have "?grid \<noteq> []" by auto
    then have "hd ?grid = ?grid ! 0" by (rule hd_conv_nth)
    also have "\<dots> = ?mn - ns_per_day" using nth_date_range[OF pos] by simp
    finally show ?thesis .
  qed
  have last: "last ?grid = ?mx + ns_per_day"
  proof (rule last_date_range)
    show "?mn - ns_per_day \<le> ?mx + ns_per_day" using le day by simp
    show "(?mx + ns_per_day - (?mn - ns_per_day)) mod ns_per_minute = 0"
      unfolding diff using dvd by (simp add: mod_eq_0_iff_dvd)
  qed
  have srt: "sorted_wrt (<) ?grid"
    unfolding sorted_wrt_iff_nth_less using ns_per_minute_pos by (simp add: nth_date_range)
  have "create_base_timeline data_frames = Inr [(''timestamp'', Datetime None (map Some ?grid))]"
    using create_base_timeline_canonical[OF assms(1,2) series_min_Some[OF assms(3)]
            series_max_Some[OF assms(3)] mn assms(5,6)] .
  with len nth hd last srt show ?thesis by blast
qed

theorem timeline_grid_bounds_and_spacing_witness:
  "\<exists>grid. create_base_timeline
      [(''blood_glucose'',
        Some [(''date'', Datetime None [Some 1672617600000000000, Some 1672531200000000000]),
              (''bgl'', Object [Other (5::nat), Other 6])])]
      = Inr [(''timestamp'', Datetime None (map Some grid))] \<and>
     length grid = 4321 \<and>
     (\<forall>k < length grid. grid ! k = 1672444800000000000 + int k * ns_per_minute) \<and>
     hd grid = 1672444800000000000 \<and> last grid = 1672704000000000000 \<and>
     sorted_wrt (<) grid"
proof -
  have h1: "map_of [(''blood_glucose'',
        Some [(''date'', Datetime None [Some 1672617600000000000, Some 1672531200000000000]),
              (''bgl'', Object [Other (5::nat), Other 6])])] ''blood_glucose'' =
     Some (Some [(''date'', Datetime None [Some 1672617600000000000, Some 1672531200000000000]),
              (''bgl'', Object [Other (5::nat), Other 6])])" by simp
  have h2: "getitem [(''date'', Datetime None [Some 1672617600000000000, Some 1672531200000000000]),
              (''bgl'', Object [Other (5::nat), Other 6])] ''date'' =
     Inr (Datetime None [Some 1672617600000000000, Some 1672531200000000000])"
    by (simp add: getitem_def)
  have h3: "present [Some 1672617600000000000, Some 1672531200000000000] \<noteq> []" by simp
  have h4: "\<forall>v \<in> set (present [Some 1672617600000000000, Some 1672531200000000000]).
      v mod ns_per_minute = 0"
    by (simp add: ns_per_minute_def ns_per_second_def)
  have h5: "ts_min \<le> Min (set (present [Some 1672617600000000000, Some 1672531200000000000]))
                    - ns_per_day"
    by (simp add: ts_min_def ns_per_day_def ns_per_minute_def ns_per_second_def)
  have h6: "Max (set (present [Some 1672617600000000000, Some 1672531200000000000]))
              + ns_per_day \<le> ts_max"
    by (simp add: ts_max_def ns_per_day_def ns_per_minute_def ns_per_second_def)
  show ?thesis
    using timeline_grid_bounds_and_spacing [OF h1 h2 h3 h4 h5 h6]
    by (simp add: ns_per_day_def ns_per_minute_def ns_per_second_def)
qed

section \<open>What normalization and merging leave alone\<close>


lemma filter_setitem:
  "filter (\<lambda>p. fst p \<noteq> c) (setitem df c col) = filter (\<lambda>p. fst p \<noteq> c) df"
  by (induction df) auto

lemma getitem_setitem_other: "n \<noteq> c \<Longrightarrow> getitem (setitem df c col) n = getitem df n"
  by (simp add: getitem_def map_of_setitem_other)

lemma standardize_obj_old:
  assumes "standardize_timestamp_obj st a dc = (st', r)" "b < length st"
  shows "st' ! b = st ! b"
  using assms
  by (auto simp: standardize_timestamp_obj_def copy_def nth_append
           split: sum.splits prod.splits)

lemma standardize_obj_new:
  assumes "standardize_timestamp_obj st a dc = (st', Inr (a', adj))"
  shows "a' = length st \<and> a' < length st' \<and>
         standardize_timestamp (st ! a) dc = Inr (st' ! a', adj)"
  using assms
  by (auto simp: standardize_timestamp_obj_def copy_def nth_append
           split: sum.splits prod.splits)

lemma standardize_frame:
  assumes "standardize_timestamp df dc = Inr (df', adj)"
  shows "\<exists>c. resolve_date_col df dc = Inr c \<and> columns df' = columns df \<and>
             filter (\<lambda>p. fst p \<noteq> c) df' = filter (\<lambda>p. fst p \<noteq> c) df \<and>
             (\<forall>n. n \<noteq> c \<longrightarrow> getitem df' n = getitem df n)"
proof -
  from assms obtain c col tz ws where
    c: "resolve_date_col df dc = Inr c" and col: "getitem df c = Inr col" and
    df': "df' = setitem df c (Datetime None (map (map_option round_min) ws))"
    unfolding standardize_Inr_iff by blast
  have "columns df' = columns df" unfolding df' using col by (rule columns_setitem)
  moreover have "filter (\<lambda>p. fst p \<noteq> c) df' = filter (\<lambda>p. fst p \<noteq> c) df"
    unfolding df' by (rule filter_setitem)
  moreover have "\<forall>n. n \<noteq> c \<longrightarrow> getitem df' n = getitem df n"
    unfolding df' by (simp add: getitem_setitem_other)
  ultimately show ?thesis using c by blast
qed

lemma merge_obj_old:
  assumes "merge_all_data_obj pv st reg = (st', r)" "b < length st"
  shows "st' ! b = st ! b"
  using assms by (auto simp: merge_all_data_obj_def nth_append split: sum.splits)

text \<open>
  Claim C10: normalization returns a new frame and leaves every frame of the store as it
  was, the caller's original included; the new frame has the columns of the original, and
  every column other than the resolved timestamp column is the original's, value for
  value and in the same order. The merger changes no frame of the store either.
\<close>

theorem only_timestamp_column_changes:
  "(standardize_timestamp_obj st a dc = (st', r) \<longrightarrow>
      (\<forall>b < length st. st' ! b = st ! b) \<and>
      (\<forall>a' adj. r = Inr (a', adj) \<longrightarrow>
         a' = length st \<and> a' < length st' \<and>
         (\<exists>c. resolve_date_col (st ! a) dc = Inr c \<and>
              columns (st' ! a') = columns (st ! a) \<and>
              filter (\<lambda>p. fst p \<noteq> c) (st' ! a') = filter (\<lambda>p. fst p \<noteq> c) (st ! a) \<and>
              (\<forall>n. n \<noteq> c \<longrightarrow> getitem (st' ! a') n = getitem (st ! a) n)))) \<and>
   (merge_all_data_obj pv st reg = (st'', r') \<longrightarrow> (\<forall>b < length st. st'' ! b = st ! b))"
proof (intro conjI impI allI)
  fix b assume "standardize_timestamp_obj st a dc = (st', r)" "b < length st"
  then show "st' ! b = st ! b" by (rule standardize_obj_old)
next
  fix a' adj assume s: "standardize_timestamp_obj st a dc = (st', r)" and r: "r = Inr (a', adj)"
  from standardize_obj_new[OF s[unfolded r]] show "a' = length st" by simp
  from standardize_obj_new[OF s[unfolded r]] show "a' < length st'" by simp
  from standardize_obj_new[OF s[unfolded r]]
  have "standardize_timestamp (st ! a) dc = Inr (st' ! a', adj)" by simp
  then show "\<exists>c. resolve_date_col (st ! a) dc = Inr c \<and>
              columns (st' ! a') = columns (st ! a) \<and>
              filter (\<lambda>p. fst p \<noteq> c) (st' ! a') = filter (\<lambda>p. fst p \<noteq> c) (st ! a) \<and>
              (\<forall>n. n \<noteq> c \<longrightarrow> getitem (st' ! a') n = getitem (st ! a) n)"
    by (rule standardize_frame)
next
  fix b assume "merge_all_data_obj pv st reg = (st'', r')" "b < length st"
  then show "st'' ! b = st ! b" by (rule merge_obj_old)
qed

theorem only_timestamp_column_changes_witness:
  "[[(''date'', Object [NaiveStr 90000000000]), (''bgl'', Object [Other (5::nat)])],
    [(''date'', Datetime None [Some 120000000000]), (''bgl'', Object [Other (5::nat)])]] ! 0
   = [[(''date'', Object [NaiveStr 90000000000]), (''bgl'', Object [Other (5::nat)])]] ! 0 \<and>
   (\<exists>c. resolve_date_col
          ([[(''date'', Object [NaiveStr 90000000000]), (''bgl'', Object [Other (5::nat)])]] ! 0)
          None = Inr c \<and>
        columns ([[(''date'', Object [NaiveStr 90000000000]), (''bgl'', Object [Other (5::nat)])],
                  [(''date'', Datetime None [Some 120000000000]), (''bgl'', Object [Other (5::nat)])]] ! 1)
          = columns ([[(''date'', Object [NaiveStr 90000000000]), (''bgl'', Object [Other (5::nat)])]] ! 0) \<and>
        filter (\<lambda>p. fst p \<noteq> c)
          ([[(''date'', Object [NaiveStr 90000000000]), (''bgl'', Object [Other (5::nat)])],
            [(''date'', Datetime None [Some 120000000000]), (''bgl'', Object [Other (5::nat)])]] ! 1)
          = filter (\<lambda>p. fst p \<noteq> c)
              ([[(''date'', Object [NaiveStr 90000000000]), (''bgl'', Object [Other (5::nat)])]] ! 0) \<and>
        (\<forall>n. n \<noteq> c \<longrightarrow>
           getitem ([[(''date'', Object [NaiveStr 90000000000]), (''bgl'', Object [Other (5::nat)])],
                     [(''date'', Datetime None [Some 120000000000]), (''bgl'', Object [Other (5::nat)])]] ! 1) n
           = getitem ([[(''date'', Object [NaiveStr 90000000000]), (''bgl'', Object [Other (5::nat)])]] ! 0) n)) \<and>
   fst (merge_all_data_obj Pandas2
          [[(''date'', Datetime None [Some 120000000000]), (''bgl'', Object [Other (5::nat)])]]
          [(''blood_glucose'', Some 0)]) ! 0
   = [[(''date'', Datetime None [Some 120000000000]), (''bgl'', Object [Other (5::nat)])]] ! 0"
proof -
  have h: "standardize_timestamp_obj
             [[(''date'', Object [NaiveStr 90000000000]), (''bgl'', Object [Other (5::nat)])]] 0 None =
           ([[(''date'', Object [NaiveStr 90000000000]), (''bgl'', Object [Other (5::nat)])],
             [(''date'', Datetime None [Some 120000000000]), (''bgl'', Object [Other (5::nat)])]],
            Inr (1, []))"
    by code_simp
  have g: "merge_all_data_obj Pandas2
             [[(''date'', Datetime None [Some 120000000000]), (''bgl'', Object [Other (5::nat)])]]
             [(''blood_glucose'', Some 0)] =
           (fst (merge_all_data_obj Pandas2
                   [[(''date'', Datetime None [Some 120000000000]), (''bgl'', Object [Other (5::nat)])]]
                   [(''blood_glucose'', Some 0)]),
            snd (merge_all_data_obj Pandas2
                   [[(''date'', Datetime None [Some 120000000000]), (''bgl'', Object [Other (5::nat)])]]
                   [(''blood_glucose'', Some 0)]))"
    by simp
  have l: "0 < length [[(''date'', Object [NaiveStr 90000000000]), (''bgl'', Object [Other (5::nat)])]]"
    by simp
  have l': "0 < length [[(''date'', Datetime None [Some 120000000000]), (''bgl'', Object [Other (5::nat)])]]"
    by simp
  note t = only_timestamp_column_changes [THEN conjunct1, THEN mp, OF h]
  note u = only_timestamp_column_changes [THEN conjunct2, THEN mp, OF g]
  show ?thesis
    using t [THEN conjunct1, THEN spec, THEN mp, OF l]
          t [THEN conjunct2, THEN spec, THEN spec, THEN mp, OF refl, THEN conjunct2, THEN conjunct2]
          u [THEN spec, THEN mp, OF l']
    by (intro conjI)
qed

section \<open>The row pairs of a left join\<close>

lemma matches_iff: "j \<in> set (matches rk k) \<longleftrightarrow> j < length rk \<and> rk ! j = k"
  by (auto simp: matches_def)

lemma matches_empty_iff: "matches rk k = [] \<longleftrightarrow> k \<notin> set rk"
  by (auto simp: matches_def filter_empty_conv in_set_conv_nth)

lemma distinct_matches: "distinct (matches rk k)"
  by (simp add: matches_def)

lemma matches_distinct_keys:
  assumes "distinct rk"
  shows "length (matches rk k) \<le> 1"
proof -
  have "j = j'" if "j \<in> set (matches rk k)" "j' \<in> set (matches rk k)" for j j'
    using that assms by (auto simp: matches_iff nth_eq_iff_index_eq)
  then have "card (set (matches rk k)) \<le> 1"
    by (metis card_le_Suc0_iff_eq List.finite_set One_nat_def)
  then show ?thesis by (simp add: distinct_card[OF distinct_matches])
qed

lemmas left_outer_join_row_pairs = left_outer_join_def

lemma row_pairs_fst: "map fst (row_pairs rk k i) = replicate (max 1 (length (matches rk k))) i"
  by (cases "matches rk k") (auto simp: row_pairs_def comp_def map_replicate_const)

lemma set_row_pairs:
  "p \<in> set (row_pairs rk k i) \<longleftrightarrow>
     fst p = i \<and> (case snd p of None \<Rightarrow> k \<notin> set rk | Some j \<Rightarrow> j < length rk \<and> rk ! j = k)"
proof (cases "matches rk k")
  case Nil
  then have "k \<notin> set rk" by (simp add: matches_empty_iff)
  with Nil show ?thesis
    by (cases p) (auto simp: row_pairs_def split: option.splits simp: in_set_conv_nth)
next
  case (Cons j js)
  then have in_rk: "k \<in> set rk" using matches_empty_iff[of rk k] by auto
  have "p \<in> set (row_pairs rk k i) \<longleftrightarrow> (\<exists>j' \<in> set (matches rk k). p = (i, Some j'))"
    using Cons by (auto simp: row_pairs_def)
  then show ?thesis using in_rk
    by (cases p) (auto simp: matches_iff split: option.splits)
qed

lemma set_left_outer_join:
  "p \<in> set (left_outer_join lk rk) \<longleftrightarrow>
     fst p < length lk \<and>
     (case snd p of None \<Rightarrow> lk ! fst p \<notin> set rk
                  | Some j \<Rightarrow> j < length rk \<and> rk ! j = lk ! fst p)"
  unfolding left_outer_join_row_pairs by (auto simp: set_row_pairs)

lemma left_keys_expand:
  "map (\<lambda>p. lk ! fst p) (left_outer_join lk rk) =
   concat (map (\<lambda>k. replicate (max 1 (length (matches rk k))) k) lk)"
proof -
  have "map (\<lambda>p. lk ! fst p) (left_outer_join lk rk) =
        concat (map (\<lambda>i. map ((!) lk) (map fst (row_pairs rk (lk ! i) i))) [0 ..< length lk])"
    unfolding left_outer_join_row_pairs by (simp add: map_concat comp_def)
  also have "\<dots> = concat (map (\<lambda>i. replicate (max 1 (length (matches rk (lk ! i)))) (lk ! i))
                       [0 ..< length lk])"
    by (simp add: row_pairs_fst)
  also have "\<dots> = concat (map (\<lambda>k. replicate (max 1 (length (matches rk k))) k)
                       (map ((!) lk) [0 ..< length lk]))"
    by (simp add: comp_def)
  finally show ?thesis by (simp add: map_nth)
qed

lemma remdups_adj_replicate_append:
  "remdups_adj (replicate (Suc n) k @ ys) = remdups_adj (k # ys)"
  by (induction n) simp_all

lemma remdups_adj_expand:
  assumes "\<And>k. 0 < g k"
  shows "remdups_adj (concat (map (\<lambda>k. replicate (g k) k) ks)) = remdups_adj ks"
proof (induction ks)
  case Nil then show ?case by simp
next
  case (Cons k ks)
  let ?C = "concat (map (\<lambda>k. replicate (g k) k) ks)"
  obtain n where n: "g k = Suc n" using assms[of k] by (cases "g k") auto
  have "remdups_adj (concat (map (\<lambda>k. replicate (g k) k) (k # ks))) =
        remdups_adj (replicate (Suc n) k @ ?C)"
    by (simp add: n)
  also have "\<dots> = remdups_adj (k # ?C)" by (rule remdups_adj_replicate_append)
  also have "\<dots> = remdups_adj (k # ks)"
    unfolding remdups_adj_Cons[of k ?C] remdups_adj_Cons[of k ks] Cons.IH ..
  finally show ?case .
qed

lemma left_keys_remdups_adj:
  "remdups_adj (map (\<lambda>p. lk ! fst p) (left_outer_join lk rk)) = remdups_adj lk"
  unfolding left_keys_expand by (rule remdups_adj_expand) simp

lemma left_keys_distinct:
  assumes "distinct rk"
  shows "map fst (left_outer_join lk rk) = [0 ..< length lk]"
proof -
  have one: "max (Suc 0) (length (matches rk k)) = Suc 0" for k
    using matches_distinct_keys[OF assms, of k] by simp
  have "map fst (left_outer_join lk rk) =
        concat (map (\<lambda>i. map fst (row_pairs rk (lk ! i) i)) [0 ..< length lk])"
    unfolding left_outer_join_row_pairs by (simp add: map_concat comp_def)
  also have "\<dots> = concat (map (\<lambda>i. [i]) [0 ..< length lk])"
    by (simp add: row_pairs_fst one)
  also have "\<dots> = [0 ..< length lk]"
    by (simp add: concat_map_singleton)
  finally show ?thesis .
qed

lemma left_outer_join_length_ge: "length lk \<le> length (left_outer_join lk rk)"
proof -
  have "length (map (\<lambda>p. lk ! fst p) (left_outer_join lk rk)) \<ge> length lk"
    unfolding left_keys_expand
    by (induction lk) auto
  then show ?thesis by simp
qed

section \<open>The result of one merge\<close>

lemma key_column_InrD:
  assumes "key_column df c = Inr ks"
  shows "filter (\<lambda>p. fst p = c) df = [(c, Datetime None ks)]"
proof -
  from assms obtain n where "filter (\<lambda>p. fst p = c) df = [(n, Datetime None ks)]"
    by (auto simp: key_column_def split: list.splits prod.splits column.splits option.splits)
  moreover from this have "(n, Datetime None ks) \<in> set (filter (\<lambda>p. fst p = c) df)" by simp
  then have "n = c" by auto
  ultimately show ?thesis by simp
qed

lemma key_column_head:
  assumes "key_column ((c, Datetime None lkeys) # rest) c = Inr ks"
  shows "ks = lkeys" and "c \<notin> fst ` set rest"
proof -
  from key_column_InrD[OF assms] have "filter (\<lambda>p. fst p = c) rest = []" and "ks = lkeys"
    by auto
  then show "ks = lkeys" and "c \<notin> fst ` set rest"
    by (auto simp: filter_empty_conv)
qed

lemma items_overlap_InrD:
  assumes "items_overlap_with_suffix pv l r sfx = Inr (ll, rl)"
  shows "ll = map (renamer (filter (\<lambda>x. x \<in> set r) l) (fst sfx)) l"
    and "rl = map (renamer (filter (\<lambda>x. x \<in> set r) l) (snd sfx)) r"
  using assms
  by (auto simp: items_overlap_with_suffix_def Let_def renamer_def map_idI split: if_splits)

lemma merge_InrD:
  assumes "merge pv left right lo ro sfx = Inr res"
  shows "\<exists>lkeys rkeys left1 right1 llabels rlabels.
           key_column left lo = Inr lkeys \<and> key_column right ro = Inr rkeys \<and>
           drop_join_key left right lo ro = (left1, right1) \<and>
           items_overlap_with_suffix pv (columns left1) (columns right1) sfx = Inr (llabels, rlabels) \<and>
           res = reindex_and_concat left1 right1 llabels rlabels (left_outer_join lkeys rkeys)"
proof (cases "key_column left lo")
  case (Inl e) with assms show ?thesis by (simp add: merge_def)
next
  case lk: (Inr lkeys)
  show ?thesis
  proof (cases "key_column right ro")
    case (Inl e) with assms lk show ?thesis by (simp add: merge_def)
  next
    case rk: (Inr rkeys)
    obtain left1 right1 where d: "drop_join_key left right lo ro = (left1, right1)"
      by (cases "drop_join_key left right lo ro")
    show ?thesis
    proof (cases "items_overlap_with_suffix pv (columns left1) (columns right1) sfx")
      case (Inl e) with assms lk rk d show ?thesis by (simp add: merge_def)
    next
      case (Inr labels)
      obtain ll rl where "labels = (ll, rl)" by (cases labels)
      with assms lk rk d Inr show ?thesis by (simp add: merge_def)
    qed
  qed
qed

lemma columns_drop_label: "set (columns (drop_label df c)) \<subseteq> set (columns df)"
  by (auto simp: columns_def drop_label_def)

lemma merge_step:
  assumes m: "merge pv ((ts, Datetime None lkeys) # rest) right ts ro sfx = Inr res"
      and ne: "lkeys \<noteq> []"
      and keep: "fst sfx = [] \<or> ts \<notin> set (columns right)"
  shows "\<exists>rkeys rest'. key_column right ro = Inr rkeys \<and>
           res = (ts, Datetime None (map (\<lambda>p. lkeys ! fst p) (left_outer_join lkeys rkeys))) # rest'"
proof -
  let ?left = "(ts, Datetime None lkeys) # rest"
  from merge_InrD[OF m] obtain lk rkeys left1 right1 llabels rlabels where
    lk: "key_column ?left ts = Inr lk" and rk: "key_column right ro = Inr rkeys" and
    d: "drop_join_key ?left right ts ro = (left1, right1)" and
    io: "items_overlap_with_suffix pv (columns left1) (columns right1) sfx = Inr (llabels, rlabels)" and
    res: "res = reindex_and_concat left1 right1 llabels rlabels (left_outer_join lk rkeys)"
    by blast
  have lk_eq: "lk = lkeys" using key_column_head(1)[OF lk] .
  have nr: "0 < nrows ?left" using ne by (simp add: nrows_def)
  have l1: "left1 = ?left" and r1: "set (columns right1) \<subseteq> set (columns right)"
    using d nr columns_drop_label[of right ro]
    by (auto simp: drop_join_key_def split: if_splits)
  let ?tr = "filter (\<lambda>x. x \<in> set (columns right1)) (columns left1)"
  have ll: "llabels = map (renamer ?tr (fst sfx)) (columns left1)"
    using items_overlap_InrD(1)[OF io] .
  have "renamer ?tr (fst sfx) ts = ts"
    using keep r1 by (auto simp: renamer_def)
  then obtain ll' where ll': "llabels = ts # ll'"
    unfolding ll l1 by (simp add: columns_def)
  show ?thesis
    using rk unfolding res l1 ll' lk_eq
    by (simp add: reindex_and_concat_def comp_def)
qed

lemma unique_keys_Cons: "unique_keys (x # reg) \<Longrightarrow> unique_keys reg"
  unfolding unique_keys_def by (meson list.set_intros(2))

lemma left_keys_unchanged:
  assumes "distinct rk"
  shows "map (\<lambda>p. lk ! fst p) (left_outer_join lk rk) = lk"
proof -
  have "map (\<lambda>p. lk ! fst p) (left_outer_join lk rk) = map ((!) lk) (map fst (left_outer_join lk rk))"
    by (simp add: comp_def)
  also have "\<dots> = lk" unfolding left_keys_distinct[OF assms] by (rule map_nth)
  finally show ?thesis .
qed

lemma merge_others_keys:
  assumes "merge_others pv acc reg = Inr res"
      and "acc = (''timestamp'', Datetime None ks) # rest" and "ks \<noteq> []"
  shows "\<exists>ks' rest'. res = (''timestamp'', Datetime None ks') # rest' \<and>
           remdups_adj ks' = remdups_adj ks \<and> length ks \<le> length ks' \<and>
           (unique_keys reg \<longrightarrow> ks' = ks)"
  using assms
proof (induction reg arbitrary: acc ks rest)
  case Nil
  then have "res = (''timestamp'', Datetime None ks) # rest" by simp
  then show ?case by blast
next
  case (Cons entry reg)
  obtain name odf where entry: "entry = (name, odf)" by (cases entry)
  show ?case
  proof (cases odf)
    case None
    with Cons.prems entry have "merge_others pv acc reg = Inr res" by simp
    from Cons.IH[OF this Cons.prems(2,3)] show ?thesis
      using unique_keys_Cons[of entry reg] by blast
  next
    case (Some df)
    show ?thesis
    proof (cases "df_empty df \<or> name = ''blood_glucose'' \<or> time_cols df = []")
      case True
      with Cons.prems entry Some have "merge_others pv acc reg = Inr res"
        by (auto split: list.splits)
      from Cons.IH[OF this Cons.prems(2,3)] show ?thesis
        using unique_keys_Cons[of entry reg] by blast
    next
      case False
      then obtain c cs where tc: "time_cols df = c # cs" by (cases "time_cols df") auto
      from False tc Cons.prems(1) entry Some have
        b: "bind (merge pv acc df ''timestamp'' c ([], ''_'' @ name))
                 (\<lambda>final_df. merge_others pv final_df reg) = Inr res"
        by simp
      then obtain mid where m: "merge pv acc df ''timestamp'' c ([], ''_'' @ name) = Inr mid"
        and r: "merge_others pv mid reg = Inr res"
        by (cases "merge pv acc df ''timestamp'' c ([], ''_'' @ name)") auto
      from merge_step[OF m[unfolded Cons.prems(2)] Cons.prems(3)] obtain rkeys rest1 where
        rk: "key_column df c = Inr rkeys" and
        mid: "mid = (''timestamp'', Datetime None (map (\<lambda>p. ks ! fst p) (left_outer_join ks rkeys))) # rest1"
        by auto
      let ?ks1 = "map (\<lambda>p. ks ! fst p) (left_outer_join ks rkeys)"
      have r1: "remdups_adj ?ks1 = remdups_adj ks" by (rule left_keys_remdups_adj)
      have l1: "length ks \<le> length ?ks1" using left_outer_join_length_ge[of ks rkeys] by simp
      with Cons.prems(3) have ne1: "?ks1 \<noteq> []" by auto
      from Cons.IH[OF r mid ne1] obtain ks' rest' where
        res: "res = (''timestamp'', Datetime None ks') # rest'" and
        r2: "remdups_adj ks' = remdups_adj ?ks1" and l2: "length ?ks1 \<le> length ks'" and
        u2: "unique_keys reg \<longrightarrow> ks' = ?ks1"
        by blast
      have u: "unique_keys (entry # reg) \<longrightarrow> ks' = ks"
      proof
        assume u: "unique_keys (entry # reg)"
        from False have "name \<noteq> ''blood_glucose''" by simp
        with u entry Some tc rk have "distinct rkeys"
          unfolding unique_keys_def by (metis list.set_intros(1))
        then have "?ks1 = ks" by (rule left_keys_unchanged)
        with u2 unique_keys_Cons[OF u] show "ks' = ks" by simp
      qed
      show ?thesis using res r1 r2 l1 l2 u by (intro exI[of _ ks'] exI[of _ rest']) simp
    qed
  qed
qed

lemma zip_labels:
  "zip (map f (map fst xs)) (map g xs) = map (\<lambda>p. (f (fst p), g p)) xs"
  by (induction xs) auto

lemma renamer_empty_suffix: "renamer tr [] = (\<lambda>x. x)"
  by (rule ext) (simp add: renamer_def)

lemma merge_secondary_shape:
  assumes m: "merge pv ((ts, Datetime None lkeys) # rest) right ts ro ([], rs) = Inr res"
      and ne: "lkeys \<noteq> []"
  shows "\<exists>rkeys. key_column right ro = Inr rkeys \<and>
           res = map (\<lambda>p. (fst p, take_rows (snd p) (map (Some \<circ> fst) (left_outer_join lkeys rkeys))))
                     ((ts, Datetime None lkeys) # rest)
               @ map (\<lambda>p. (renamer (filter (\<lambda>x. x \<in> set (columns (snd (drop_join_key ((ts, Datetime None lkeys) # rest) right ts ro))))
                                            (columns ((ts, Datetime None lkeys) # rest))) rs (fst p),
                             take_rows (snd p) (map snd (left_outer_join lkeys rkeys))))
                     (snd (drop_join_key ((ts, Datetime None lkeys) # rest) right ts ro))"
proof -
  let ?left = "(ts, Datetime None lkeys) # rest"
  from merge_InrD[OF m] obtain lk rkeys left1 right1 llabels rlabels where
    lk: "key_column ?left ts = Inr lk" and rk: "key_column right ro = Inr rkeys" and
    d: "drop_join_key ?left right ts ro = (left1, right1)" and
    io: "items_overlap_with_suffix pv (columns left1) (columns right1) ([], rs) = Inr (llabels, rlabels)" and
    res: "res = reindex_and_concat left1 right1 llabels rlabels (left_outer_join lk rkeys)"
    by blast
  have lk_eq: "lk = lkeys" using key_column_head(1)[OF lk] .
  have nr: "0 < nrows ?left" using ne by (simp add: nrows_def)
  have l1: "left1 = ?left"
    using d nr by (auto simp: drop_join_key_def split: if_splits)
  have r1: "right1 = snd (drop_join_key ?left right ts ro)"
    by (simp add: d)
  have ll: "llabels = columns ?left"
    using items_overlap_InrD(1)[OF io] unfolding l1 by (simp add: renamer_empty_suffix)
  have rl: "rlabels = map (renamer (filter (\<lambda>x. x \<in> set (columns (snd (drop_join_key ((ts, Datetime None lkeys) # rest) right ts ro))))
                                           (columns ?left)) rs) (columns (snd (drop_join_key ((ts, Datetime None lkeys) # rest) right ts ro)))"
    using items_overlap_InrD(2)[OF io] unfolding l1 r1 by simp
  have "res = zip (map (\<lambda>x. x) (map fst ?left))
                  (map (\<lambda>p. take_rows (snd p) (map (Some \<circ> fst) (left_outer_join lkeys rkeys))) ?left)
            @ zip (map (renamer (filter (\<lambda>x. x \<in> set (columns (snd (drop_join_key ((ts, Datetime None lkeys) # rest) right ts ro))))
                                           (columns ?left)) rs) (map fst (snd (drop_join_key ((ts, Datetime None lkeys) # rest) right ts ro))))
                  (map (\<lambda>p. take_rows (snd p) (map snd (left_outer_join lkeys rkeys)))
                       (snd (drop_join_key ((ts, Datetime None lkeys) # rest) right ts ro)))"
    unfolding res reindex_and_concat_def l1 r1 ll rl lk_eq columns_def by simp
  then show ?thesis
    using rk unfolding zip_labels by blast
qed

lemma iloc_take_rows:
  assumes "r < length idx"
  shows "(idx ! r = None \<longrightarrow> isnull (iloc (take_rows col idx) r)) \<and>
         (\<forall>j. idx ! r = Some j \<longrightarrow> iloc (take_rows col idx) r = iloc col j)"
  using assms by (cases col) auto

lemma nth_left_outer_join:
  assumes "r < length (left_outer_join lk rk)"
  shows "fst (left_outer_join lk rk ! r) < length lk \<and>
         (case snd (left_outer_join lk rk ! r) of
            None \<Rightarrow> lk ! fst (left_outer_join lk rk ! r) \<notin> set rk
          | Some j \<Rightarrow> j < length rk \<and> rk ! j = lk ! fst (left_outer_join lk rk ! r))"
  using set_left_outer_join[of "left_outer_join lk rk ! r" lk rk] assms by simp

section \<open>The merged dataset\<close>

lemma series_min_le_max:
  assumes "series_min vs = Some mn" "series_max vs = Some mx"
  shows "mn \<le> mx"
proof -
  from assms(1) have ne: "present vs \<noteq> []" by (auto simp: series_min_def split: list.splits)
  have fin: "finite (set (present vs))" "set (present vs) \<noteq> {}" using ne by auto
  have "mn = Min (set (present vs))" "mx = Max (set (present vs))"
    using assms series_min_Some[OF ne] series_max_Some[OF ne] by simp_all
  then show ?thesis using fin by (simp add: Min_le_iff)
qed

lemma date_range_nonempty: "s \<le> e \<Longrightarrow> date_range s e \<noteq> []"
proof -
  assume "s \<le> e"
  then have "0 \<le> (e - s) div ns_per_minute"
    using ns_per_minute_pos by (simp add: pos_imp_zdiv_nonneg_iff)
  then have "0 < length (date_range s e)" by (simp add: length_date_range)
  then show ?thesis by auto
qed

lemma create_base_timeline_shape:
  assumes "create_base_timeline reg = Inr base"
  shows "\<exists>grid. base = [(''timestamp'', Datetime None grid)] \<and> grid \<noteq> []"
proof -
  from assms obtain bgl where "map_of reg ''blood_glucose'' = Some (Some bgl)"
    by (auto simp: create_base_timeline_def split: option.splits)
  note b = this
  from assms b obtain col where c: "getitem bgl ''date'' = Inr col"
    by (cases "getitem bgl ''date''") (auto simp: create_base_timeline_def)
  from assms b c obtain tz vs where col: "col = Datetime tz vs"
    by (cases col) (auto simp: create_base_timeline_def)
  from assms b c col obtain mn mx where mm: "series_min vs = Some mn" "series_max vs = Some mx"
    by (auto simp: create_base_timeline_def split: option.splits)
  let ?tl = "date_range (mn - ns_per_day) (mx + ns_per_day)"
  let ?base = "[(''timestamp'', Datetime tz (map Some ?tl))] :: 'a frame"
  from assms b c col mm obtain r where
    s: "standardize_timestamp ?base (Some ''timestamp'') = Inr r" and r: "base = fst r"
    by (cases "standardize_timestamp ?base (Some ''timestamp'')")
       (auto simp: create_base_timeline_def Let_def split: if_splits)
  obtain df' adj where rr: "r = (df', adj)" by (cases r)
  from s[unfolded rr standardize_Inr_iff] obtain c' col' tz' ws where
    "resolve_date_col ?base (Some ''timestamp'') = Inr c'" "getitem ?base c' = Inr col'"
    "ensure_datetime col' = Inr (Datetime tz' ws)"
    "df' = setitem ?base c' (Datetime None (map (map_option round_min) ws))"
    by blast
  then have "df' = [(''timestamp'', Datetime None (map (map_option round_min) (map Some ?tl)))]"
    by (auto simp: resolve_date_col_def getitem_def)
  moreover have "?tl \<noteq> []"
  proof (rule date_range_nonempty)
    have "0 < ns_per_day" by (simp add: ns_per_day_def ns_per_minute_def ns_per_second_def)
    with series_min_le_max[OF mm] show "mn - ns_per_day \<le> mx + ns_per_day" by simp
  qed
  ultimately show ?thesis using r rr by auto
qed

lemma drop_duplicated_head:
  "drop_duplicated [] ((n, col) # df) = (n, col) # drop_duplicated [n] df"
  by simp

lemma drop_duplicated_columns:
  "distinct (columns (drop_duplicated seen df)) \<and>
   set (columns (drop_duplicated seen df)) = set (columns df) - set seen"
  by (induction seen df rule: drop_duplicated.induct) (auto simp: columns_def)

lemma drop_duplicated_map_of:
  "map_of (drop_duplicated seen df) n = (if n \<in> set seen then None else map_of df n)"
  by (induction seen df rule: drop_duplicated.induct) auto

lemma merge_all_data_keys:
  assumes m: "merge_all_data pv reg = Inr df"
      and b: "map_of reg ''blood_glucose'' = Some (Some bgl)"
      and t: "''timestamp'' \<notin> set (columns bgl)"
  shows "\<exists>grid ks rest. create_base_timeline reg = Inr [(''timestamp'', Datetime None grid)] \<and>
           df = (''timestamp'', Datetime None ks) # rest \<and>
           remdups_adj ks = remdups_adj grid \<and> length grid \<le> length ks \<and>
           ((\<forall>pk. key_column bgl ''date'' = Inr pk \<longrightarrow> distinct pk) \<and> unique_keys reg
              \<longrightarrow> ks = grid)"
proof -
  from m obtain base where cb: "create_base_timeline reg = Inr base"
    by (cases "create_base_timeline reg") (auto simp: merge_all_data_def)
  from m cb obtain with_bgl where mp: "merge_primary pv base reg = Inr with_bgl"
    by (cases "merge_primary pv base reg") (auto simp: merge_all_data_def)
  from m cb mp obtain acc where mo: "merge_others pv with_bgl reg = Inr acc"
      and df: "df = drop_duplicated [] acc"
    by (cases "merge_others pv with_bgl reg") (auto simp: merge_all_data_def)
  from create_base_timeline_shape[OF cb] obtain grid where
    base: "base = [(''timestamp'', Datetime None grid)]" and gne: "grid \<noteq> []" by blast
  from mp b have pm: "merge pv [(''timestamp'', Datetime None grid)] bgl ''timestamp'' ''date'' (''_x'', ''_y'')
                        = Inr with_bgl"
    by (simp add: merge_primary_def base)
  from merge_step[OF pm gne] t obtain pk rest1 where
    pk: "key_column bgl ''date'' = Inr pk" and
    wb: "with_bgl = (''timestamp'', Datetime None (map (\<lambda>p. grid ! fst p) (left_outer_join grid pk))) # rest1"
    by auto
  let ?k1 = "map (\<lambda>p. grid ! fst p) (left_outer_join grid pk)"
  have r1: "remdups_adj ?k1 = remdups_adj grid" by (rule left_keys_remdups_adj)
  have l1: "length grid \<le> length ?k1" using left_outer_join_length_ge[of grid pk] by simp
  with gne have ne1: "?k1 \<noteq> []" by auto
  from merge_others_keys[OF mo wb ne1] obtain ks rest where
    acc: "acc = (''timestamp'', Datetime None ks) # rest" and
    r2: "remdups_adj ks = remdups_adj ?k1" and l2: "length ?k1 \<le> length ks" and
    u2: "unique_keys reg \<longrightarrow> ks = ?k1"
    by blast
  have u: "(\<forall>pk. key_column bgl ''date'' = Inr pk \<longrightarrow> distinct pk) \<and> unique_keys reg \<longrightarrow> ks = grid"
  proof
    assume a: "(\<forall>pk. key_column bgl ''date'' = Inr pk \<longrightarrow> distinct pk) \<and> unique_keys reg"
    with pk have "distinct pk" by blast
    then have "?k1 = grid" by (rule left_keys_unchanged)
    with a u2 show "ks = grid" by simp
  qed
  have "df = (''timestamp'', Datetime None ks) # drop_duplicated [''timestamp''] rest"
    unfolding df acc by simp
  with cb base r1 r2 l1 l2 u show ?thesis by auto
qed

lemma merge_step_exact:
  assumes m: "merge pv ((''timestamp'', Datetime None lkeys) # cols) right ''timestamp'' ro ([], rs) = Inr res"
      and ne: "lkeys \<noteq> []"
  shows "\<exists>rkeys rest'. key_column right ro = Inr rkeys \<and>
         res = (''timestamp'', Datetime None (map (\<lambda>p. lkeys ! fst p) (left_outer_join lkeys rkeys))) # rest' \<and>
         (\<forall>n col. (n, col) \<in> set (snd (drop_join_key ((''timestamp'', Datetime None lkeys) # cols)
                                           right ''timestamp'' ro)) \<longrightarrow>
            (\<exists>n'. (n', take_rows col (map snd (left_outer_join lkeys rkeys))) \<in> set res) \<and>
            (\<forall>r < length (left_outer_join lkeys rkeys).
               (lkeys ! fst (left_outer_join lkeys rkeys ! r) \<notin> set rkeys \<longrightarrow>
                  isnull (iloc (take_rows col (map snd (left_outer_join lkeys rkeys))) r)) \<and>
               (lkeys ! fst (left_outer_join lkeys rkeys ! r) \<in> set rkeys \<longrightarrow>
                  (\<exists>j < length rkeys. rkeys ! j = lkeys ! fst (left_outer_join lkeys rkeys ! r) \<and>
                     iloc (take_rows col (map snd (left_outer_join lkeys rkeys))) r = iloc col j))))"
proof -
  let ?left = "(''timestamp'', Datetime None lkeys) # cols"
  from merge_secondary_shape[OF m ne] obtain rkeys where
    rk: "key_column right ro = Inr rkeys" and
    res: "res = map (\<lambda>p. (fst p, take_rows (snd p) (map (Some \<circ> fst) (left_outer_join lkeys rkeys)))) ?left
               @ map (\<lambda>p. (renamer (filter (\<lambda>x. x \<in> set (columns (snd (drop_join_key ?left right ''timestamp'' ro))))
                                            (columns ?left)) rs (fst p),
                             take_rows (snd p) (map snd (left_outer_join lkeys rkeys))))
                     (snd (drop_join_key ?left right ''timestamp'' ro))"
    by blast
  let ?pairs = "left_outer_join lkeys rkeys"
  let ?keys = "map (\<lambda>p. lkeys ! fst p) ?pairs"
  have nr: "0 < nrows ?left" using ne by (simp add: nrows_def)
  obtain rest' where hd: "res = (''timestamp'', Datetime None ?keys) # rest'"
    unfolding res by (simp add: comp_def)
  have c1: "\<exists>n'. (n', take_rows col (map snd ?pairs)) \<in> set res"
    if "(n, col) \<in> set (snd (drop_join_key ?left right ''timestamp'' ro))" for n col
  proof -
    note i = that
    let ?f = "\<lambda>p. (renamer (filter (\<lambda>x. x \<in> set (columns (snd (drop_join_key ?left right ''timestamp'' ro))))
                                            (columns ?left)) rs (fst p),
                             take_rows (snd p) (map snd ?pairs))"
    have "?f (n, col) \<in> set (map ?f (snd (drop_join_key ?left right ''timestamp'' ro)))"
      unfolding set_map using i by (rule imageI)
    then have "?f (n, col) \<in> set res" unfolding res by simp
    then show ?thesis by auto
  qed
  have c2: "isnull (iloc (take_rows col (map snd ?pairs)) r)"
    if r: "r < length ?pairs" and k: "lkeys ! fst (?pairs ! r) \<notin> set rkeys" for r and col :: "'a column"
  proof -
    from nth_left_outer_join[OF r] k have "snd (?pairs ! r) = None"
      by (cases "snd (?pairs ! r)") (auto dest: nth_mem)
    with iloc_take_rows[of r "map snd ?pairs" col] r show ?thesis by simp
  qed
  have c3: "\<exists>j < length rkeys. rkeys ! j = lkeys ! fst (?pairs ! r) \<and>
                     iloc (take_rows col (map snd ?pairs)) r = iloc col j"
    if r: "r < length ?pairs" and k: "lkeys ! fst (?pairs ! r) \<in> set rkeys" for r and col :: "'a column"
  proof -
    from nth_left_outer_join[OF r] k obtain j where
      j: "snd (?pairs ! r) = Some j" "j < length rkeys" "rkeys ! j = lkeys ! fst (?pairs ! r)"
      by (cases "snd (?pairs ! r)") (auto dest: nth_mem)
    with iloc_take_rows[of r "map snd ?pairs" col] r
    have "iloc (take_rows col (map snd ?pairs)) r = iloc col j" by simp
    with j show ?thesis by auto
  qed
  show ?thesis
    apply (rule exI[of _ rkeys])
    apply (rule exI[of _ rest'])
    apply (intro conjI allI impI)
        apply (rule rk)
       apply (rule hd)
      apply (erule c1)
     apply (erule (1) c2)
    apply (erule (1) c3)
    done
qed

lemma sorted_date_range: "sorted_wrt (<) (date_range s e)"
  unfolding sorted_wrt_iff_nth_less using ns_per_minute_pos by (simp add: nth_date_range)

lemma distinct_date_range: "distinct (date_range s e)"
  using sorted_date_range[of s e] by (simp add: strict_sorted_iff)

lemma key_column_single: "key_column [(c, Datetime None ks)] c = Inr ks"
  by (simp add: key_column_def)

lemma key_column_first:
  "c \<noteq> n \<Longrightarrow> key_column [(c, Datetime None ks), (n, col)] c = Inr ks"
  by (simp add: key_column_def)

lemma merge_primary_single:
  fixes v :: "'v cell list"
  assumes "grid \<noteq> []"
  shows "merge pv [(''timestamp'', Datetime None grid)]
           [(''date'', Datetime None pk), (''bgl'', Object v)] ''timestamp'' ''date'' (''_x'', ''_y'') =
         Inr [(''timestamp'', Datetime None (map (\<lambda>p. grid ! fst p) (left_outer_join grid pk))),
              (''date'', Datetime None (map (\<lambda>i. case i of None \<Rightarrow> None | Some j \<Rightarrow> pk ! j)
                                         (map snd (left_outer_join grid pk)))),
              (''bgl'', Object (map (\<lambda>i. case i of None \<Rightarrow> NaN | Some j \<Rightarrow> v ! j)
                                   (map snd (left_outer_join grid pk))))]"
  by (simp add: merge_def key_column_def drop_join_key_def items_overlap_with_suffix_def
        columns_def reindex_and_concat_def comp_def)

lemma merge_all_data_single:
  fixes v :: "'v cell list"
  assumes "present pk \<noteq> []" and "\<forall>t \<in> set (present pk). t mod ns_per_minute = 0"
      and "ts_min \<le> Min (set (present pk)) - ns_per_day"
      and "Max (set (present pk)) + ns_per_day \<le> ts_max"
  defines "grid \<equiv> map Some (date_range (Min (set (present pk)) - ns_per_day)
                                         (Max (set (present pk)) + ns_per_day))"
  shows "create_base_timeline [(''blood_glucose'', Some [(''date'', Datetime None pk), (''bgl'', Object v)])]
           = Inr [(''timestamp'', Datetime None grid)]"
    and "merge_all_data pv [(''blood_glucose'', Some [(''date'', Datetime None pk), (''bgl'', Object v)])] =
         Inr [(''timestamp'', Datetime None (map (\<lambda>p. grid ! fst p) (left_outer_join grid pk))),
              (''date'', Datetime None (map (\<lambda>i. case i of None \<Rightarrow> None | Some j \<Rightarrow> pk ! j)
                                         (map snd (left_outer_join grid pk)))),
              (''bgl'', Object (map (\<lambda>i. case i of None \<Rightarrow> NaN | Some j \<Rightarrow> v ! j)
                                   (map snd (left_outer_join grid pk))))]"
proof -
  let ?bgl = "[(''date'', Datetime None pk), (''bgl'', Object v)]"
  let ?reg = "[(''blood_glucose'', Some ?bgl)]"
  have fin: "finite (set (present pk))" "set (present pk) \<noteq> {}" using assms(1) by auto
  have mn: "Min (set (present pk)) mod ns_per_minute = 0"
    using assms(2) Min_in[OF fin] by blast
  have le: "Min (set (present pk)) \<le> Max (set (present pk))"
    using fin by (simp add: Min_le_iff)
  have day: "0 < ns_per_day" by (simp add: ns_per_day_def ns_per_minute_def ns_per_second_def)
  have gne: "grid \<noteq> []"
    unfolding grid_def using date_range_nonempty[of "Min (set (present pk)) - ns_per_day"
        "Max (set (present pk)) + ns_per_day"] le day by simp
  show cb: "create_base_timeline ?reg = Inr [(''timestamp'', Datetime None grid)]"
    unfolding grid_def
    by (rule create_base_timeline_canonical[where bgl_df = ?bgl and vs = pk])
       (simp_all add: getitem_def series_min_Some[OF assms(1)] series_max_Some[OF assms(1)] mn
          assms(3,4))
  show "merge_all_data pv ?reg =
         Inr [(''timestamp'', Datetime None (map (\<lambda>p. grid ! fst p) (left_outer_join grid pk))),
              (''date'', Datetime None (map (\<lambda>i. case i of None \<Rightarrow> None | Some j \<Rightarrow> pk ! j)
                                         (map snd (left_outer_join grid pk)))),
              (''bgl'', Object (map (\<lambda>i. case i of None \<Rightarrow> NaN | Some j \<Rightarrow> v ! j)
                                   (map snd (left_outer_join grid pk))))]"
    by (simp add: merge_all_data_def cb merge_primary_def merge_primary_single[OF gne])
qed

lemma length_left_outer_join:
  "length (left_outer_join lk rk) = sum_list (map (\<lambda>k. max 1 (length (matches rk k))) lk)"
proof -
  have "length (left_outer_join lk rk) = length (map (\<lambda>p. lk ! fst p) (left_outer_join lk rk))"
    by simp
  also have "\<dots> = sum_list (map (\<lambda>k. max 1 (length (matches rk k))) lk)"
    unfolding left_keys_expand by (simp add: length_concat comp_def)
  finally show ?thesis .
qed

lemma matches_pair: "length (matches [a, a] k) = (if k = a then 2 else 0)"
  by (auto simp: matches_def)

lemma sum_list_count:
  "sum_list (map (\<lambda>k. if k = a then 2 else (1::nat)) lk) = length lk + count_list lk a"
  by (induction lk) auto

lemma count_list_distinct: "distinct xs \<Longrightarrow> x \<in> set xs \<Longrightarrow> count_list xs x = 1"
  by (induction xs) (auto simp: count_list_0_iff)

lemma length_join_duplicate_key:
  assumes "distinct lk" "a \<in> set lk"
  shows "length (left_outer_join lk [a, a]) = Suc (length lk)"
proof -
  have "(\<lambda>k. max 1 (length (matches [a, a] k))) = (\<lambda>k. if k = a then 2 else 1)"
    by (rule ext) (simp add: matches_pair)
  then show ?thesis
    unfolding length_left_outer_join using count_list_distinct[OF assms]
    by (simp add: sum_list_count)
qed

lemma merge_step_rows:
  assumes m: "merge pv ((''timestamp'', Datetime None lkeys) # cols) right ''timestamp'' ro ([], rs) = Inr res"
      and ne: "lkeys \<noteq> []"
  shows "\<exists>rkeys rest'. key_column right ro = Inr rkeys \<and>
         res = (''timestamp'',
                Datetime None (map (\<lambda>p. lkeys ! fst p) (left_outer_join lkeys rkeys))) # rest' \<and>
         (\<forall>n col. (n, col) \<in> set (snd (drop_join_key ((''timestamp'', Datetime None lkeys) # cols)
                                           right ''timestamp'' ro)) \<longrightarrow>
            (\<exists>n'. (n', take_rows col (map snd (left_outer_join lkeys rkeys))) \<in> set res) \<and>
            (\<forall>r < length (left_outer_join lkeys rkeys).
               (lkeys ! fst (left_outer_join lkeys rkeys ! r) \<notin> set rkeys \<longrightarrow>
                  isnull (iloc (take_rows col (map snd (left_outer_join lkeys rkeys))) r)) \<and>
               (lkeys ! fst (left_outer_join lkeys rkeys ! r) \<in> set rkeys \<longrightarrow>
                  (\<exists>j < length rkeys. rkeys ! j = lkeys ! fst (left_outer_join lkeys rkeys ! r) \<and>
                     iloc (take_rows col (map snd (left_outer_join lkeys rkeys))) r = iloc col j)))) \<and>
         remdups_adj (map (\<lambda>p. lkeys ! fst p) (left_outer_join lkeys rkeys)) = remdups_adj lkeys \<and>
         length lkeys \<le> length (left_outer_join lkeys rkeys) \<and>
         (distinct rkeys \<longrightarrow> map (\<lambda>p. lkeys ! fst p) (left_outer_join lkeys rkeys) = lkeys) \<and>
         (\<forall>i j. i < length lkeys \<and> j < length rkeys \<and> rkeys ! j = lkeys ! i \<longrightarrow>
            (i, Some j) \<in> set (left_outer_join lkeys rkeys))"
proof -
  from merge_step_exact[OF m ne] obtain rkeys rest' where
    rk: "key_column right ro = Inr rkeys" and
    hd: "res = (''timestamp'',
                Datetime None (map (\<lambda>p. lkeys ! fst p) (left_outer_join lkeys rkeys))) # rest'" and
    ex: "\<forall>n col. (n, col) \<in> set (snd (drop_join_key ((''timestamp'', Datetime None lkeys) # cols)
                                           right ''timestamp'' ro)) \<longrightarrow>
            (\<exists>n'. (n', take_rows col (map snd (left_outer_join lkeys rkeys))) \<in> set res) \<and>
            (\<forall>r < length (left_outer_join lkeys rkeys).
               (lkeys ! fst (left_outer_join lkeys rkeys ! r) \<notin> set rkeys \<longrightarrow>
                  isnull (iloc (take_rows col (map snd (left_outer_join lkeys rkeys))) r)) \<and>
               (lkeys ! fst (left_outer_join lkeys rkeys ! r) \<in> set rkeys \<longrightarrow>
                  (\<exists>j < length rkeys. rkeys ! j = lkeys ! fst (left_outer_join lkeys rkeys ! r) \<and>
                     iloc (take_rows col (map snd (left_outer_join lkeys rkeys))) r = iloc col j)))"
    by blast
  have ra: "remdups_adj (map (\<lambda>p. lkeys ! fst p) (left_outer_join lkeys rkeys)) = remdups_adj lkeys"
    by (rule left_keys_remdups_adj)
  have le: "length lkeys \<le> length (left_outer_join lkeys rkeys)"
    by (rule left_outer_join_length_ge)
  have di: "distinct rkeys \<longrightarrow> map (\<lambda>p. lkeys ! fst p) (left_outer_join lkeys rkeys) = lkeys"
    using left_keys_unchanged by blast
  have co: "\<forall>i j. i < length lkeys \<and> j < length rkeys \<and> rkeys ! j = lkeys ! i \<longrightarrow>
            (i, Some j) \<in> set (left_outer_join lkeys rkeys)"
    by (simp add: set_left_outer_join)
  show ?thesis
    apply (rule exI[of _ rkeys])
    apply (rule exI[of _ rest'])
    apply (intro conjI)
          apply (rule rk)
         apply (rule hd)
        apply (rule ex)
       apply (rule ra)
      apply (rule le)
     apply (rule di)
    apply (rule co)
    done
qed




section \<open>Colliding column names\<close>

lemma bind_assoc: "bind (bind m f) g = bind m (\<lambda>x. bind (f x) g)"
  by (cases m) simp_all

lemma merge_others_append:
  "merge_others pv a (xs @ ys) = bind (merge_others pv a xs) (\<lambda>a'. merge_others pv a' ys)"
proof (induction xs arbitrary: a)
  case Nil then show ?case by simp
next
  case (Cons x xs)
  obtain name odf where x: "x = (name, odf)" by (cases x)
  show ?case
  proof (cases odf)
    case None with x Cons show ?thesis by simp
  next
    case (Some df)
    show ?thesis
    proof (cases "df_empty df \<or> name = ''blood_glucose'' \<or> time_cols df = []")
      case True with x Some Cons show ?thesis by (auto split: list.splits)
    next
      case False
      then obtain c cs where "time_cols df = c # cs" by (cases "time_cols df") auto
      with False x Some Cons show ?thesis by (simp add: bind_assoc)
    qed
  qed
qed

lemma take_rows_take_rows:
  assumes "\<forall>i \<in> set sel. i < length idx"
  shows "take_rows (take_rows base idx) (map Some sel) = take_rows base (map (\<lambda>i. idx ! i) sel)"
  using assms by (cases base) auto

lemma map_of_relabel:
  "map_of (map (\<lambda>p. (fst p, g (snd p))) xs) k = map_option g (map_of xs k)"
  by (induction xs) auto

lemma map_of_rename:
  assumes "\<forall>x \<in> fst ` set xs. f x = f n \<longrightarrow> x = n"
  shows "map_of (map (\<lambda>p. (f (fst p), g (snd p))) xs) (f n) = map_option g (map_of xs n)"
  using assms by (induction xs) auto

lemma getitem_Inr_iff: "getitem df k = Inr col \<longleftrightarrow> map_of df k = Some col"
  by (auto simp: getitem_def split: option.splits)

lemma set_fst_left_outer_join: "fst ` set (left_outer_join lk rk) = {0 ..< length lk}"
proof (intro set_eqI iffI)
  fix i assume "i \<in> fst ` set (left_outer_join lk rk)"
  then show "i \<in> {0 ..< length lk}" by (auto simp: set_left_outer_join)
next
  fix i assume "i \<in> {0 ..< length lk}"
  then have i: "i < length lk" by simp
  show "i \<in> fst ` set (left_outer_join lk rk)"
  proof (cases "lk ! i \<in> set rk")
    case False
    with i have "(i, None) \<in> set (left_outer_join lk rk)" by (simp add: set_left_outer_join)
    then show ?thesis by force
  next
    case True
    then obtain j where "j < length rk" "rk ! j = lk ! i" by (auto simp: in_set_conv_nth)
    with i have "(i, Some j) \<in> set (left_outer_join lk rk)" by (simp add: set_left_outer_join)
    then show ?thesis by force
  qed
qed

lemma merge_left_column:
  assumes m: "merge pv ((ts, Datetime None lkeys) # rest) right ts ro ([], rs) = Inr res"
      and ne: "lkeys \<noteq> []"
      and rk: "key_column right ro = Inr rkeys"
      and g: "getitem ((ts, Datetime None lkeys) # rest) l = Inr col"
  shows "getitem res l = Inr (take_rows col (map (Some \<circ> fst) (left_outer_join lkeys rkeys)))"
proof -
  let ?left = "(ts, Datetime None lkeys) # rest"
  let ?P = "left_outer_join lkeys rkeys"
  from merge_secondary_shape[OF m ne] rk obtain R where
    res: "res = map (\<lambda>p. (fst p, take_rows (snd p) (map (Some \<circ> fst) ?P))) ?left @ R"
    by auto
  from g have "map_of ?left l = Some col" by (simp only: getitem_Inr_iff)
  then have "map_of (map (\<lambda>p. (fst p, take_rows (snd p) (map (Some \<circ> fst) ?P))) ?left) l
               = Some (take_rows col (map (Some \<circ> fst) ?P))"
    using map_of_relabel[where g = "\<lambda>c. take_rows c (map (Some \<circ> fst) ?P)" and xs = ?left and k = l]
    by (simp only: option.map)
  then have "map_of res l = Some (take_rows col (map (Some \<circ> fst) ?P))"
    unfolding res by (simp only: map_of_append map_add_Some_iff) simp
  then show ?thesis by (simp only: getitem_Inr_iff)
qed

lemma merge_others_tracks:
  assumes "merge_others pv acc reg = Inr res"
      and "acc = (''timestamp'', Datetime None ks) # rest" and "ks \<noteq> []"
  shows "\<exists>sel. set sel = {0 ..< length ks} \<and>
           (\<forall>l base idx. getitem acc l = Inr (take_rows base idx) \<and> length idx = length ks \<longrightarrow>
              getitem res l = Inr (take_rows base (map (\<lambda>i. idx ! i) sel)))"
  using assms
proof (induction reg arbitrary: acc ks rest)
  case Nil
  then have r: "res = acc" by simp
  show ?case
  proof (intro exI[of _ "[0 ..< length ks]"] conjI allI impI)
    show "set [0 ..< length ks] = {0 ..< length ks}" by simp
  next
    fix l :: string and base :: "'a column" and idx
    assume a: "getitem acc l = Inr (take_rows base idx) \<and> length idx = length ks"
    then have "map (\<lambda>i. idx ! i) [0 ..< length ks] = idx" using map_nth[of idx] by simp
    with a r show "getitem res l = Inr (take_rows base (map (\<lambda>i. idx ! i) [0 ..< length ks]))" by simp
  qed
next
  case (Cons entry reg)
  obtain name odf where entry: "entry = (name, odf)" by (cases entry)
  show ?case
  proof (cases odf)
    case None
    with Cons.prems entry have "merge_others pv acc reg = Inr res" by simp
    from Cons.IH[OF this Cons.prems(2,3)] show ?thesis .
  next
    case (Some df)
    show ?thesis
    proof (cases "df_empty df \<or> name = ''blood_glucose'' \<or> time_cols df = []")
      case True
      with Cons.prems entry Some have "merge_others pv acc reg = Inr res"
        by (auto split: list.splits)
      from Cons.IH[OF this Cons.prems(2,3)] show ?thesis .
    next
      case False
      then obtain c cs where tc: "time_cols df = c # cs" by (cases "time_cols df") auto
      from False tc Cons.prems(1) entry Some have
        b: "bind (merge pv acc df ''timestamp'' c ([], ''_'' @ name))
                 (\<lambda>final_df. merge_others pv final_df reg) = Inr res"
        by simp
      then obtain mid where m: "merge pv acc df ''timestamp'' c ([], ''_'' @ name) = Inr mid"
        and r: "merge_others pv mid reg = Inr res"
        by (cases "merge pv acc df ''timestamp'' c ([], ''_'' @ name)") auto
      note m' = m[unfolded Cons.prems(2)]
      from merge_step[OF m' Cons.prems(3)] obtain rkeys rest1 where
        rk: "key_column df c = Inr rkeys" and
        mid: "mid = (''timestamp'', Datetime None (map (\<lambda>p. ks ! fst p) (left_outer_join ks rkeys))) # rest1"
        by auto
      let ?P = "left_outer_join ks rkeys"
      let ?ks1 = "map (\<lambda>p. ks ! fst p) ?P"
      have l1: "length ks \<le> length ?ks1" using left_outer_join_length_ge[of ks rkeys] by simp
      with Cons.prems(3) have ne1: "?ks1 \<noteq> []" by auto
      from Cons.IH[OF r mid ne1] obtain sel1 where
        s1: "set sel1 = {0 ..< length ?ks1}" and
        t1: "\<And>l base idx. getitem mid l = Inr (take_rows base idx) \<Longrightarrow> length idx = length ?ks1 \<Longrightarrow>
              getitem res l = Inr (take_rows base (map (\<lambda>i. idx ! i) sel1))"
        by blast
      let ?sel = "map (\<lambda>i. fst (?P ! i)) sel1"
      have fstP: "\<And>p. p \<in> set ?P \<Longrightarrow> fst p < length ks" by (simp add: set_left_outer_join)
      have s: "set ?sel = {0 ..< length ks}"
      proof -
        have A: "(\<lambda>i. ?P ! i) ` {0 ..< length ?P} = set ?P"
          using map_nth[of ?P] set_map[of "\<lambda>i. ?P ! i" "[0 ..< length ?P]"] by simp
        have "set ?sel = fst ` ((\<lambda>i. ?P ! i) ` {0 ..< length ?P})"
          using s1 by (simp add: image_image)
        then show ?thesis unfolding A set_fst_left_outer_join .
      qed
      have t: "getitem res l = Inr (take_rows base (map (\<lambda>i. idx ! i) ?sel))"
        if g: "getitem acc l = Inr (take_rows base idx)" and li: "length idx = length ks"
        for l and base :: "'a column" and idx
      proof -
        from merge_left_column[OF m' Cons.prems(3) rk g[unfolded Cons.prems(2)]]
        have "getitem mid l = Inr (take_rows (take_rows base idx) (map Some (map fst ?P)))"
          by (simp add: comp_def)
        also have "take_rows (take_rows base idx) (map Some (map fst ?P))
                     = take_rows base (map (\<lambda>i. idx ! i) (map fst ?P))"
          by (rule take_rows_take_rows) (auto simp: li dest: fstP)
        finally have gm: "getitem mid l = Inr (take_rows base (map (\<lambda>i. idx ! i) (map fst ?P)))" .
        have A: "getitem res l = Inr (take_rows base (map (\<lambda>i. map (\<lambda>i. idx ! i) (map fst ?P) ! i) sel1))"
          by (rule t1[OF gm]) simp
        have B: "map (\<lambda>i. map (\<lambda>i. idx ! i) (map fst ?P) ! i) sel1 = map (\<lambda>i. idx ! fst (?P ! i)) sel1"
        proof (rule map_cong[OF refl])
          fix i assume "i \<in> set sel1"
          then have "i < length ?P" using s1 by simp
          then show "map (\<lambda>i. idx ! i) (map fst ?P) ! i = idx ! fst (?P ! i)" by simp
        qed
        have C: "map (\<lambda>i. idx ! fst (?P ! i)) sel1 = map (\<lambda>i. idx ! i) ?sel"
          by (simp add: comp_def)
        show ?thesis by (simp only: A B C)
      qed
      show ?thesis
        apply (rule exI[of _ ?sel])
        apply (intro conjI allI impI)
         apply (rule s)
        apply (erule conjE)
        apply (erule (1) t)
        done
    qed
  qed
qed

lemma duplicated_length: "length (duplicated seen xs) = length xs"
  by (induction xs arbitrary: seen) auto

lemma duplicated_nth:
  "i < length xs \<Longrightarrow> duplicated seen xs ! i \<longleftrightarrow> xs ! i \<in> set seen \<union> set (take i xs)"
proof (induction xs arbitrary: seen i)
  case Nil then show ?case by simp
next
  case (Cons x xs)
  show ?case
  proof (cases i)
    case 0 then show ?thesis by simp
  next
    case (Suc k)
    with Cons.prems have "k < length xs" by simp
    from Cons.IH[OF this, of "x # seen"] Suc show ?thesis by auto
  qed
qed

lemma suffix_dups_NilD:
  assumes s: "suffix_dups old new = []" and l: "length new = length old" and i: "i < length old"
      and d: "new ! i \<in> set (take i new)"
  shows "old ! i \<in> set (take i old)"
proof (rule ccontr)
  assume n: "old ! i \<notin> set (take i old)"
  let ?z = "zip new (zip (duplicated [] new) (duplicated [] old))"
  have li: "i < length ?z" using i l by (simp add: duplicated_length)
  then have "?z ! i \<in> set ?z" by (rule nth_mem)
  moreover have "?z ! i = (new ! i, duplicated [] new ! i, duplicated [] old ! i)"
    using i l by (simp add: duplicated_length)
  moreover have "duplicated [] new ! i" using duplicated_nth[of i new "[]"] i l d by simp
  moreover have "\<not> duplicated [] old ! i" using duplicated_nth[of i old "[]"] i n by simp
  ultimately have "?z ! i \<in> set (filter (\<lambda>(x, d, d0). d \<and> \<not> d0) ?z)" by simp
  with s show False by (simp add: suffix_dups_def)
qed

lemma first_occurrence:
  assumes "x \<in> set xs"
  shows "\<exists>i < length xs. xs ! i = x \<and> x \<notin> set (take i xs)"
proof -
  from split_list_first[OF assms] obtain ys zs where xs: "xs = ys @ x # zs" and n: "x \<notin> set ys"
    by blast
  show ?thesis
    by (rule exI[of _ "length ys"]) (simp add: xs n)
qed

lemma no_new_duplicates_inj:
  assumes s: "suffix_dups r (map f r) = []" and a: "a \<in> set r" and b: "b \<in> set r"
      and e: "f a = f b"
  shows "a = b"
proof (rule ccontr)
  assume ne: "a \<noteq> b"
  from first_occurrence[OF a] obtain i where i: "i < length r" "r ! i = a" "a \<notin> set (take i r)"
    by blast
  from first_occurrence[OF b] obtain j where j: "j < length r" "r ! j = b" "b \<notin> set (take j r)"
    by blast
  from i j ne have "i \<noteq> j" by auto
  then consider "i < j" | "j < i" by linarith
  then show False
  proof cases
    case 1
    have "map f r ! i \<in> set (take j (map f r))"
      using 1 i j by (auto simp: in_set_conv_nth intro!: exI[of _ i])
    then have "map f r ! j \<in> set (take j (map f r))" using i j e by simp
    from suffix_dups_NilD[OF s _ j(1) this] j show False by simp
  next
    case 2
    have "map f r ! j \<in> set (take i (map f r))"
      using 2 i j by (auto simp: in_set_conv_nth intro!: exI[of _ j])
    then have "map f r ! i \<in> set (take i (map f r))" using i j e by simp
    from suffix_dups_NilD[OF s _ i(1) this] i show False by simp
  qed
qed

lemma items_overlap_inj:
  assumes io: "items_overlap_with_suffix pv l r sfx = Inr (ll, rl)"
      and a: "a \<in> set r" and b: "b \<in> set r"
      and e: "renamer (filter (\<lambda>x. x \<in> set r) l) (snd sfx) a = renamer (filter (\<lambda>x. x \<in> set r) l) (snd sfx) b"
  shows "a = b"
proof (cases "filter (\<lambda>x. x \<in> set r) l = []")
  case True
  with e show ?thesis by (simp add: renamer_def)
next
  case False
  with io have "suffix_dups r (map (renamer (filter (\<lambda>x. x \<in> set r) l) (snd sfx)) r) = []"
    by (auto simp: items_overlap_with_suffix_def Let_def split: if_splits)
  from no_new_duplicates_inj[OF this a b e] show ?thesis .
qed

lemma merge_secondary_overlap:
  assumes m: "merge pv ((ts, Datetime None lkeys) # rest) right ts ro ([], rs) = Inr res"
      and ne: "lkeys \<noteq> []"
  shows "\<exists>ll rl. items_overlap_with_suffix pv (columns ((ts, Datetime None lkeys) # rest))
                    (columns (snd (drop_join_key ((ts, Datetime None lkeys) # rest) right ts ro)))
                    ([], rs) = Inr (ll, rl)"
proof -
  let ?left = "(ts, Datetime None lkeys) # rest"
  from merge_InrD[OF m] obtain left1 right1 llabels rlabels where
    d: "drop_join_key ?left right ts ro = (left1, right1)" and
    io: "items_overlap_with_suffix pv (columns left1) (columns right1) ([], rs) = Inr (llabels, rlabels)"
    by blast
  have nr: "0 < nrows ?left" using ne by (simp add: nrows_def)
  have l1: "left1 = ?left"
    using d nr by (auto simp: drop_join_key_def split: if_splits)
  have r1: "right1 = snd (drop_join_key ?left right ts ro)"
    by (simp add: d)
  from io show ?thesis unfolding l1 r1 by blast
qed

lemma merge_incoming_column:
  assumes m: "merge pv ((ts, Datetime None lkeys) # rest) right ts ro ([], rs) = Inr res"
      and ne: "lkeys \<noteq> []"
      and rk: "key_column right ro = Inr rkeys"
      and old: "n \<in> set (columns ((ts, Datetime None lkeys) # rest))"
      and new: "getitem (snd (drop_join_key ((ts, Datetime None lkeys) # rest) right ts ro)) n = Inr new"
      and f1: "n @ rs \<notin> set (columns ((ts, Datetime None lkeys) # rest))"
  shows "getitem res (n @ rs) = Inr (take_rows new (map snd (left_outer_join lkeys rkeys)))"
proof -
  let ?left = "(ts, Datetime None lkeys) # rest"
  let ?right1 = "snd (drop_join_key ?left right ts ro)"
  let ?tr = "filter (\<lambda>x. x \<in> set (columns ?right1)) (columns ?left)"
  let ?P = "left_outer_join lkeys rkeys"
  let ?L = "map (\<lambda>p. (fst p, take_rows (snd p) (map (Some \<circ> fst) ?P))) ?left"
  let ?R = "map (\<lambda>p. (renamer ?tr rs (fst p), take_rows (snd p) (map snd ?P))) ?right1"
  from merge_secondary_shape[OF m ne] rk have res: "res = ?L @ ?R" by auto
  from merge_secondary_overlap[OF m ne] obtain ll rl where
    io: "items_overlap_with_suffix pv (columns ?left) (columns ?right1) ([], rs) = Inr (ll, rl)"
    by blast
  from new have mn: "map_of ?right1 n = Some new" by (simp only: getitem_Inr_iff)
  then have nr: "n \<in> set (columns ?right1)"
    by (auto simp: columns_def dest: map_of_SomeD intro: rev_image_eqI)
  with old have ren: "renamer ?tr rs n = n @ rs" by (simp add: renamer_def)
  have inj: "\<forall>x \<in> fst ` set ?right1. renamer ?tr rs x = renamer ?tr rs n \<longrightarrow> x = n"
  proof (intro ballI impI)
    fix x assume x: "x \<in> fst ` set ?right1" and e: "renamer ?tr rs x = renamer ?tr rs n"
    from x have x': "x \<in> set (columns ?right1)" by (simp add: columns_def)
    from e have e': "renamer ?tr (snd ([], rs)) x = renamer ?tr (snd ([], rs)) n" by simp
    show "x = n" by (rule items_overlap_inj[OF io x' nr e'])
  qed
  have "n @ rs \<notin> fst ` set ?L"
    using f1 by (simp add: columns_def image_image)
  then have LN: "map_of ?L (n @ rs) = None"
    by (rule map_of_eq_None_iff[THEN iffD2])
  have "map_of ?R (renamer ?tr rs n) = map_option (\<lambda>c. take_rows c (map snd ?P)) (map_of ?right1 n)"
    using inj by (rule map_of_rename[where f = "renamer ?tr rs" and g = "\<lambda>c. take_rows c (map snd ?P)"])
  then have RN: "map_of ?R (n @ rs) = Some (take_rows new (map snd ?P))"
    unfolding ren mn by (simp only: option.map)
  have "map_of (?L @ ?R) (n @ rs) = Some (take_rows new (map snd ?P))"
    by (simp only: map_of_append map_add_def LN RN option.case)
  then have "map_of res (n @ rs) = Some (take_rows new (map snd ?P))"
    unfolding res .
  then show ?thesis by (simp only: getitem_Inr_iff)
qed

lemma merge_all_data_InrD:
  assumes m: "merge_all_data pv reg = Inr out"
  shows "\<exists>base with_bgl fin. create_base_timeline reg = Inr base \<and>
           merge_primary pv base reg = Inr with_bgl \<and> merge_others pv with_bgl reg = Inr fin \<and>
           out = drop_duplicated [] fin"
proof -
  from m obtain base where cb: "create_base_timeline reg = Inr base"
    by (cases "create_base_timeline reg") (auto simp: merge_all_data_def)
  from m cb obtain with_bgl where mp: "merge_primary pv base reg = Inr with_bgl"
    by (cases "merge_primary pv base reg") (auto simp: merge_all_data_def)
  from m cb mp obtain fin where mo: "merge_others pv with_bgl reg = Inr fin"
      and df: "out = drop_duplicated [] fin"
    by (cases "merge_others pv with_bgl reg") (auto simp: merge_all_data_def)
  with cb mp show ?thesis by blast
qed

lemma with_bgl_shape:
  assumes cb: "create_base_timeline reg = Inr base"
      and mp: "merge_primary pv base reg = Inr with_bgl"
      and b: "map_of reg ''blood_glucose'' = Some (Some bgl)"
      and t: "''timestamp'' \<notin> set (columns bgl)"
  shows "\<exists>ks rest. with_bgl = (''timestamp'', Datetime None ks) # rest \<and> ks \<noteq> []"
proof -
  from create_base_timeline_shape[OF cb] obtain grid where
    base: "base = [(''timestamp'', Datetime None grid)]" and gne: "grid \<noteq> []" by blast
  from mp b have pm: "merge pv [(''timestamp'', Datetime None grid)] bgl ''timestamp'' ''date'' (''_x'', ''_y'')
                        = Inr with_bgl"
    by (simp add: merge_primary_def base)
  from merge_step[OF pm gne] t obtain pk rest1 where
    wb: "with_bgl = (''timestamp'', Datetime None (map (\<lambda>p. grid ! fst p) (left_outer_join grid pk))) # rest1"
    by auto
  have "length grid \<le> length (map (\<lambda>p. grid ! fst p) (left_outer_join grid pk))"
    using left_outer_join_length_ge[of grid pk] by simp
  with gne have "map (\<lambda>p. grid ! fst p) (left_outer_join grid pk) \<noteq> []" by auto
  with wb show ?thesis by blast
qed

lemma drop_duplicated_first:
  "distinct (columns (drop_duplicated [] acc)) \<and>
    set (columns (drop_duplicated [] acc)) = set (columns acc) \<and>
    (\<forall>c. getitem (drop_duplicated [] acc) c = getitem acc c)"
  using drop_duplicated_columns[of "[]" acc] by (simp add: getitem_def drop_duplicated_map_of)

lemma merge_all_data_distinct: "merge_all_data pv reg = Inr df \<Longrightarrow> distinct (columns df)"
proof -
  assume "merge_all_data pv reg = Inr df"
  then obtain acc where "df = drop_duplicated [] acc"
    by (auto simp: merge_all_data_def bind_def split: sum.splits)
  then show ?thesis using drop_duplicated_columns[of "[]" acc] by simp
qed

lemma time_like_timestamp: "time_like ''timestamp''"
  by code_simp

lemma not_time_like_bgl: "\<not> time_like ''bgl''"
  by code_simp

lemma merge_primary_three:
  assumes "grid \<noteq> []"
  shows "merge pv [(''timestamp'', Datetime None grid)]
           [(''date'', Datetime None pk), (''bgl'', b), (''bgl_spo2'', s)] ''timestamp'' ''date'' (''_x'', ''_y'') =
         Inr [(''timestamp'', Datetime None (map (\<lambda>p. grid ! fst p) (left_outer_join grid pk))),
              (''date'', take_rows (Datetime None pk) (map snd (left_outer_join grid pk))),
              (''bgl'', take_rows b (map snd (left_outer_join grid pk))),
              (''bgl_spo2'', take_rows s (map snd (left_outer_join grid pk)))]"
  by (simp add: merge_def key_column_def drop_join_key_def items_overlap_with_suffix_def
        columns_def reindex_and_concat_def comp_def)

lemma merge_existing_suffixed_label:
  assumes "ks \<noteq> []"
  shows "merge Pandas2 [(''timestamp'', Datetime None ks), (''date'', d), (''bgl'', b), (''bgl_spo2'', s)]
           [(''timestamp'', Datetime None rk), (''bgl'', x)] ''timestamp'' ''timestamp'' ([], ''_'' @ ''spo2'') =
         Inr [(''timestamp'', Datetime None (map (\<lambda>p. ks ! fst p) (left_outer_join ks rk))),
              (''date'', take_rows d (map (Some \<circ> fst) (left_outer_join ks rk))),
              (''bgl'', take_rows b (map (Some \<circ> fst) (left_outer_join ks rk))),
              (''bgl_spo2'', take_rows s (map (Some \<circ> fst) (left_outer_join ks rk))),
              (''bgl_spo2'', take_rows x (map snd (left_outer_join ks rk)))]"
    and "merge Pandas3 [(''timestamp'', Datetime None ks), (''date'', d), (''bgl'', b), (''bgl_spo2'', s)]
           [(''timestamp'', Datetime None rk), (''bgl'', x)] ''timestamp'' ''timestamp'' ([], ''_'' @ ''spo2'') =
         Inl (MergeError [''bgl_spo2''])"
  using assms
  by (simp_all add: merge_def key_column_def drop_join_key_def drop_label_def nrows_def
        items_overlap_with_suffix_def suffix_dups_def renamer_def
        columns_def reindex_and_concat_def comp_def)

lemma merge_new_suffixed_label:
  assumes "ks \<noteq> []"
  shows "merge pv [(''timestamp'', Datetime None ks), (''date'', d), (''bgl'', b)]
           [(''timestamp'', Datetime None rk), (''bgl'', x)] ''timestamp'' ''timestamp'' ([], ''_'' @ ''spo2'') =
         Inr [(''timestamp'', Datetime None (map (\<lambda>p. ks ! fst p) (left_outer_join ks rk))),
              (''date'', take_rows d (map (Some \<circ> fst) (left_outer_join ks rk))),
              (''bgl'', take_rows b (map (Some \<circ> fst) (left_outer_join ks rk))),
              (''bgl_spo2'', take_rows x (map snd (left_outer_join ks rk)))]"
  using assms
  by (cases pv)
     (simp_all add: merge_def key_column_def drop_join_key_def drop_label_def nrows_def
        items_overlap_with_suffix_def suffix_dups_def renamer_def
        columns_def reindex_and_concat_def comp_def)

lemma merge_primary_two:
  assumes "grid \<noteq> []"
  shows "merge pv [(''timestamp'', Datetime None grid)]
           [(''date'', Datetime None pk), (''bgl'', b)] ''timestamp'' ''date'' (''_x'', ''_y'') =
         Inr [(''timestamp'', Datetime None (map (\<lambda>p. grid ! fst p) (left_outer_join grid pk))),
              (''date'', take_rows (Datetime None pk) (map snd (left_outer_join grid pk))),
              (''bgl'', take_rows b (map snd (left_outer_join grid pk)))]"
  by (simp add: merge_def key_column_def drop_join_key_def items_overlap_with_suffix_def
        columns_def reindex_and_concat_def comp_def)




end
